theory Spec2Isabelle
  imports Main
begin

section \<open>Library behaviour the program relies on\<close>

subsection \<open>Exceptions and diagnostics\<close>

text \<open>
  The exceptions that the modelled code can raise: \<open>std::stoi\<close> throws
  \<open>invalid_argument\<close> when no digits can be converted and \<open>out_of_range\<close> when the
  value does not fit an \<open>int\<close>; constructing a \<open>std::string\<close> from a null pointer is
  reported as \<open>logic_error\<close> (see \<open>Event_fromString\<close>).
\<close>

datatype exn = invalid_argument | out_of_range | logic_error

text \<open>Lines written to \<open>cerr\<close> by the decoders; each carries the offending text.\<close>

datatype diagnostic =
    MalformedUserLine string
  | InvalidUserFormat string exn
  | UnknownRole string
  | MalformedAttendeeLine string exn
  | MalformedInventoryLine string exn
  | MalformedEventLine string exn
  | MalformedInventoryItemInEvent string exn

subsection \<open>Characters, \<open>std::stoi\<close> and \<open>operator<<\<close> on \<open>int\<close>\<close>

definition isspace :: "char \<Rightarrow> bool" where
  "isspace c \<longleftrightarrow> c \<in> set [CHR '' '', CHR 0x09, CHR 0x0A, CHR 0x0B, CHR 0x0C, CHR 0x0D]"

definition isdigit :: "char \<Rightarrow> bool" where
  "isdigit c \<longleftrightarrow> c \<in> set ''0123456789''"

text \<open>A decimal digit is the character at the place of its value in \<open>0123456789\<close>.\<close>

definition digit_val :: "char \<Rightarrow> nat" where
  "digit_val c = length (takeWhile (\<lambda>d. d \<noteq> c) ''0123456789'')"

definition digit_char :: "nat \<Rightarrow> char" where
  "digit_char n = ''0123456789'' ! (n mod 10)"

text \<open>The value of a run of decimal digits, most significant first.\<close>

definition digits_value :: "string \<Rightarrow> nat" where
  "digits_value ds = foldl (\<lambda>acc c. 10 * acc + digit_val c) 0 ds"

text \<open>
  \<open>std::stoi(s)\<close> is \<open>strtol\<close> in base 10 followed by a range check: leading white
  space is skipped, one sign is accepted, then the longest run of digits is converted
  and whatever follows is ignored. The \<open>int\<close> of the program has 32 bits.
\<close>

definition INT_MIN :: int where "INT_MIN = - 2147483648"
definition INT_MAX :: int where "INT_MAX = 2147483647"

definition in_int_range :: "int \<Rightarrow> bool" where
  "in_int_range i \<longleftrightarrow> INT_MIN \<le> i \<and> i \<le> INT_MAX"

text \<open>
  An \<open>int\<close> of the program is kept as an integer between \<open>INT_MIN\<close> and \<open>INT_MAX\<close>.
  Every number that enters through \<open>stoi\<close> or through a prompt lies in that range. The
  language leaves signed overflow undefined; the compiled program computes in two's
  complement, so a sum or difference that leaves the range comes back reduced modulo
  \<open>2\<^sup>3\<^sup>2\<close>. \<open>wrap_int\<close> is that reduction, and it is written at every \<open>+\<close>, \<open>-\<close>,
  \<open>+=\<close> and \<open>++\<close> of the program whose result can leave the range.
\<close>

definition wrap_int :: "int \<Rightarrow> int" where
  "wrap_int i = (i + 2147483648) mod 4294967296 - 2147483648"

definition stoi :: "string \<Rightarrow> exn + int" where
  "stoi s =
     (let t = dropWhile isspace s;
          neg = (t \<noteq> [] \<and> hd t = CHR ''-'');
          u = (if t \<noteq> [] \<and> (hd t = CHR ''-'' \<or> hd t = CHR ''+'') then tl t else t);
          ds = takeWhile isdigit u;
          v = (if neg then - int (digits_value ds) else int (digits_value ds))
      in if ds = [] then Inl invalid_argument
         else if v < INT_MIN \<or> INT_MAX < v then Inl out_of_range
         else Inr v)"

text \<open>\<open>ss << n\<close> for an \<open>int\<close>: decimal digits, with a minus sign when negative.\<close>

fun show_nat :: "nat \<Rightarrow> string" where
  "show_nat n =
     (if n < 10 then [digit_char n] else show_nat (n div 10) @ [digit_char (n mod 10)])"

declare show_nat.simps [simp del]

definition to_string :: "int \<Rightarrow> string" where
  "to_string i = (if i < 0 then CHR ''-'' # show_nat (nat (- i)) else show_nat (nat i))"

subsection \<open>String streams\<close>

text \<open>
  A \<open>stringstream\<close> opened on a string: the characters not yet extracted and the two
  state bits the code can observe (\<open>badbit\<close> is never set on a string buffer).
\<close>

record istream =
  buf :: string
  eofbit :: bool
  failbit :: bool

definition stringstream :: "string \<Rightarrow> istream" where
  "stringstream s = \<lparr>buf = s, eofbit = False, failbit = False\<rparr>"

definition good :: "istream \<Rightarrow> bool" where
  "good ss \<longleftrightarrow> \<not> eofbit ss \<and> \<not> failbit ss"

text \<open>
  \<open>getline(ss, str, delim)\<close>. On a stream that is not good the sentry sets \<open>failbit\<close>
  and \<open>str\<close> keeps its old value (the third argument). Otherwise \<open>str\<close> is cleared and
  characters are extracted up to the delimiter, which is extracted and dropped, or up
  to the end of the buffer, which sets \<open>eofbit\<close>, and also \<open>failbit\<close> when nothing was
  extracted at all.
\<close>

definition getline :: "char \<Rightarrow> istream \<Rightarrow> string \<Rightarrow> istream \<times> string" where
  "getline delim ss old =
     (if \<not> good ss then (ss\<lparr>failbit := True\<rparr>, old)
      else
        (case dropWhile (\<lambda>c. c \<noteq> delim) (buf ss) of
           [] \<Rightarrow> (ss\<lparr>buf := [], eofbit := True, failbit := (buf ss = [])\<rparr>, buf ss)
         | _ # rest \<Rightarrow> (ss\<lparr>buf := rest\<rparr>, takeWhile (\<lambda>c. c \<noteq> delim) (buf ss))))"

text \<open>
  \<open>ss.peek()\<close>: the next character without extracting it, \<open>None\<close> for \<open>EOF\<close>. Peeking
  at the end of the buffer sets \<open>eofbit\<close>; peeking on a stream that is not good sets
  \<open>failbit\<close>.
\<close>

definition peek :: "istream \<Rightarrow> istream \<times> char option" where
  "peek ss =
     (if \<not> good ss then (ss\<lparr>failbit := True\<rparr>, None)
      else (case buf ss of [] \<Rightarrow> (ss\<lparr>eofbit := True\<rparr>, None) | c # _ \<Rightarrow> (ss, Some c)))"

text \<open>
  The loop \<open>while (getline(ss, tok, delim)) ...\<close>: the tokens in the order the body sees
  them. The loop ends with the first call that leaves \<open>failbit\<close> set.
\<close>

function getline_loop :: "char \<Rightarrow> istream \<Rightarrow> string \<Rightarrow> string list" where
  "getline_loop delim ss old =
     (if failbit (fst (getline delim ss old)) then []
      else snd (getline delim ss old)
             # getline_loop delim (fst (getline delim ss old)) (snd (getline delim ss old)))"
  by pat_completeness auto

lemma getline_not_good:
  "\<not> good ss \<Longrightarrow> getline delim ss old = (ss\<lparr>failbit := True\<rparr>, old)"
  by (simp add: getline_def)

lemma getline_eof:
  "good ss \<Longrightarrow> delim \<notin> set (buf ss) \<Longrightarrow>
   getline delim ss old = (ss\<lparr>buf := [], eofbit := True, failbit := (buf ss = [])\<rparr>, buf ss)"
proof -
  assume g: "good ss" and d: "delim \<notin> set (buf ss)"
  from d have dw: "dropWhile (\<lambda>c. c \<noteq> delim) (buf ss) = []"
    by (simp add: dropWhile_eq_Nil_conv) blast
  show ?thesis unfolding getline_def dw using g by simp
qed

lemma getline_delim:
  "good ss \<Longrightarrow> buf ss = tok @ delim # rest \<Longrightarrow> delim \<notin> set tok \<Longrightarrow>
   getline delim ss old = (ss\<lparr>buf := rest\<rparr>, tok)"
proof -
  assume g: "good ss" and b: "buf ss = tok @ delim # rest" and d: "delim \<notin> set tok"
  from d have all: "\<And>x. x \<in> set tok \<Longrightarrow> x \<noteq> delim" by blast
  have dw: "dropWhile (\<lambda>c. c \<noteq> delim) (tok @ delim # rest) = delim # rest"
    using all by (simp add: dropWhile_append2)
  have tw: "takeWhile (\<lambda>c. c \<noteq> delim) (tok @ delim # rest) = tok"
    using all by (simp add: takeWhile_append2)
  from g b dw tw show ?thesis by (simp add: getline_def)
qed

lemma getline_measure:
  "\<not> failbit (fst (getline delim ss old)) \<Longrightarrow>
   length (buf (fst (getline delim ss old))) + (if good (fst (getline delim ss old)) then 1 else 0)
     < length (buf ss) + (if good ss then 1 else 0)"
proof (cases "good ss")
  case False
  assume "\<not> failbit (fst (getline delim ss old))"
  with False show ?thesis by (simp add: getline_not_good)
next
  case True
  show ?thesis
  proof (cases "delim \<in> set (buf ss)")
    case False
    with True show ?thesis by (simp add: getline_eof good_def)
  next
    case True
    then obtain tok rest where "buf ss = tok @ delim # rest" "delim \<notin> set tok"
      by (meson split_list_first)
    with \<open>good ss\<close> show ?thesis by (simp add: getline_delim good_def)
  qed
qed

termination getline_loop
proof (relation "measure (\<lambda>(delim, ss, old). length (buf ss) + (if good ss then 1 else 0))",
    goal_cases)
  case 1
  show ?case by simp
next
  case (2 delim ss old)
  then show ?case
    using getline_measure [of delim ss old] by (simp add: case_prod_beta)
qed

declare getline_loop.simps [simp del]


subsection \<open>\<open>std::map<int, int>\<close>\<close>

text \<open>
  A \<open>std::map<int, int>\<close> is kept as the list of its entries in the order an iteration
  visits them, that is by increasing key.
\<close>

type_synonym int_map = "(int \<times> int) list"

text \<open>\<open>m.find(k)\<close>: the mapped value, \<open>None\<close> for \<open>m.end()\<close>.\<close>

definition map_find :: "int_map \<Rightarrow> int \<Rightarrow> int option" where
  "map_find m k = map_of m k"

text \<open>\<open>m[k] = v\<close>: the entry for \<open>k\<close> is replaced or inserted at its place in key order.\<close>

fun map_put :: "int_map \<Rightarrow> int \<Rightarrow> int \<Rightarrow> int_map" where
  "map_put [] k v = [(k, v)]"
| "map_put ((k', v') # m) k v =
     (if k < k' then (k, v) # (k', v') # m
      else if k = k' then (k, v) # m
      else (k', v') # map_put m k v)"

text \<open>
  \<open>m.erase(it)\<close> for the iterator that \<open>m.find(k)\<close> returned: the map without its entry
  for \<open>k\<close>.
\<close>

definition map_erase :: "int_map \<Rightarrow> int \<Rightarrow> int_map" where
  "map_erase m k = filter (\<lambda>(k', v'). k' \<noteq> k) m"

text \<open>The value recorded for a key, \<open>0\<close> when the key is absent.\<close>

definition entry :: "int_map \<Rightarrow> int \<Rightarrow> int" where
  "entry m k = (case map_find m k of None \<Rightarrow> 0 | Some v \<Rightarrow> v)"

text \<open>The representation invariant: keys strictly increasing, hence unique.\<close>

definition is_map :: "int_map \<Rightarrow> bool" where
  "is_map m \<longleftrightarrow> sorted_wrt (<) (map fst m)"

section \<open>The entities and their line encoding\<close>

datatype Role = ADMIN | REGULAR_USER | NONE

fun Role_to_int :: "Role \<Rightarrow> int" where
  "Role_to_int ADMIN = 0"
| "Role_to_int REGULAR_USER = 1"
| "Role_to_int NONE = 2"

text \<open>
  \<open>enum class EventStatus\<close> has underlying type \<open>int\<close>, and the decoder casts whatever
  integer it reads to it, so a status is kept as its integer.
\<close>

type_synonym EventStatus = int

definition UPCOMING :: EventStatus where "UPCOMING = 0"
definition ONGOING :: EventStatus where "ONGOING = 1"
definition COMPLETED :: EventStatus where "COMPLETED = 2"
definition CANCELED :: EventStatus where "CANCELED = 3"

text \<open>
  A \<open>User\<close> object is an \<open>Admin\<close> or a \<open>RegularUser\<close>; the two classes add no field, and
  the constructor of each fixes \<open>role\<close>, so the record with its role is the object.
\<close>

record User =
  userId :: int
  username :: string
  password :: string
  role :: Role

record Attendee =
  attendeeId :: int
  a_name :: string
  contactInfo :: string
  eventIdRegisteredFor :: int
  isCheckedIn :: bool

record InventoryItem =
  itemId :: int
  i_name :: string
  totalQuantity :: int
  allocatedQuantity :: int
  i_description :: string

record Event =
  eventId :: int
  e_name :: string
  date :: string
  time :: string
  location :: string
  e_description :: string
  category :: string
  status :: EventStatus
  attendeeIds :: "int list"
  allocatedInventory :: int_map

subsection \<open>User\<close>

definition User_toString :: "User \<Rightarrow> string" where
  "User_toString u =
     to_string (userId u) @ '','' @ username u @ '','' @ password u @ '',''
       @ to_string (Role_to_int (role u))"

text \<open>
  \<open>User::fromString\<close> returns a null pointer (\<open>None\<close>) for a line it rejects. The role
  read from the line is compared as the integer it was cast from.
\<close>

definition User_fromString :: "string \<Rightarrow> User option \<times> diagnostic list" where
  "User_fromString str =
     (if str = [] \<or> count_list str CHR '','' < 3 then (None, [MalformedUserLine str])
      else
        let (ss1, segment1) = getline CHR '','' (stringstream str) []
        in case stoi segment1 of
             Inl e \<Rightarrow> (None, [InvalidUserFormat str e])
           | Inr id_val \<Rightarrow>
               let (ss2, uname) = getline CHR '','' ss1 [];
                   (ss3, pwd) = getline CHR '','' ss2 [];
                   (ss4, segment2) = getline CHR '','' ss3 segment1
               in case stoi segment2 of
                    Inl e \<Rightarrow> (None, [InvalidUserFormat str e])
                  | Inr role_val \<Rightarrow>
                      if role_val = Role_to_int ADMIN then
                        (Some \<lparr>userId = id_val, username = uname, password = pwd, role = ADMIN\<rparr>, [])
                      else if role_val = Role_to_int REGULAR_USER then
                        (Some \<lparr>userId = id_val, username = uname, password = pwd,
                               role = REGULAR_USER\<rparr>, [])
                      else (None, [UnknownRole str]))"

subsection \<open>Attendee\<close>

definition Attendee_toString :: "Attendee \<Rightarrow> string" where
  "Attendee_toString a =
     to_string (attendeeId a) @ '','' @ a_name a @ '','' @ contactInfo a @ '',''
       @ to_string (eventIdRegisteredFor a) @ '','' @ (if isCheckedIn a then ''1'' else ''0'')"

definition Attendee_error :: Attendee where
  "Attendee_error =
     \<lparr>attendeeId = 0, a_name = ''ERROR'', contactInfo = ''ERROR'', eventIdRegisteredFor = 0,
      isCheckedIn = False\<rparr>"

definition Attendee_fromString :: "string \<Rightarrow> Attendee \<times> diagnostic list" where
  "Attendee_fromString str =
     (let (ss1, segment1) = getline CHR '','' (stringstream str) []
      in case stoi segment1 of
           Inl e \<Rightarrow> (Attendee_error, [MalformedAttendeeLine str e])
         | Inr id_val \<Rightarrow>
             let (ss2, name) = getline CHR '','' ss1 [];
                 (ss3, contact) = getline CHR '','' ss2 [];
                 (ss4, segment2) = getline CHR '','' ss3 segment1
             in case stoi segment2 of
                  Inl e \<Rightarrow> (Attendee_error, [MalformedAttendeeLine str e])
                | Inr eventId_val \<Rightarrow>
                    let (ss5, segment3) = getline CHR '','' ss4 segment2
                    in (\<lparr>attendeeId = id_val, a_name = name, contactInfo = contact,
                         eventIdRegisteredFor = eventId_val, isCheckedIn = (segment3 = ''1'')\<rparr>, []))"

subsection \<open>InventoryItem\<close>

definition InventoryItem_toString :: "InventoryItem \<Rightarrow> string" where
  "InventoryItem_toString i =
     to_string (itemId i) @ '','' @ i_name i @ '','' @ to_string (totalQuantity i) @ '',''
       @ to_string (allocatedQuantity i) @ '','' @ i_description i"

definition InventoryItem_error :: InventoryItem where
  "InventoryItem_error =
     \<lparr>itemId = 0, i_name = ''ERROR'', totalQuantity = 0, allocatedQuantity = 0,
      i_description = ''ERROR''\<rparr>"

text \<open>The description is read with \<open>getline(ss, desc)\<close>, that is up to a line feed.\<close>

definition InventoryItem_fromString :: "string \<Rightarrow> InventoryItem \<times> diagnostic list" where
  "InventoryItem_fromString str =
     (let (ss1, segment1) = getline CHR '','' (stringstream str) []
      in case stoi segment1 of
           Inl e \<Rightarrow> (InventoryItem_error, [MalformedInventoryLine str e])
         | Inr id_val \<Rightarrow>
             let (ss2, name) = getline CHR '','' ss1 [];
                 (ss3, segment2) = getline CHR '','' ss2 segment1
             in case stoi segment2 of
                  Inl e \<Rightarrow> (InventoryItem_error, [MalformedInventoryLine str e])
                | Inr totalQty \<Rightarrow>
                    let (ss4, segment3) = getline CHR '','' ss3 segment2
                    in case stoi segment3 of
                         Inl e \<Rightarrow> (InventoryItem_error, [MalformedInventoryLine str e])
                       | Inr allocQty \<Rightarrow>
                           let (ss5, desc) = getline CHR 0x0A ss4 []
                           in (\<lparr>itemId = id_val, i_name = name, totalQuantity = totalQty,
                                allocatedQuantity = allocQty, i_description = desc\<rparr>, []))"

subsection \<open>Event\<close>

fun attendeesToString :: "int list \<Rightarrow> string" where
  "attendeesToString [] = []"
| "attendeesToString [x] = to_string x"
| "attendeesToString (x # y # ys) = to_string x @ '';'' @ attendeesToString (y # ys)"

fun inventoryToString_from :: "bool \<Rightarrow> int_map \<Rightarrow> string" where
  "inventoryToString_from first [] = []"
| "inventoryToString_from first ((k, v) # m) =
     (if first then [] else '';'') @ to_string k @ '':'' @ to_string v
       @ inventoryToString_from False m"

definition inventoryToString :: "int_map \<Rightarrow> string" where
  "inventoryToString m = inventoryToString_from True m"

definition Event_toString :: "Event \<Rightarrow> string" where
  "Event_toString e =
     to_string (eventId e) @ '','' @ e_name e @ '','' @ date e @ '','' @ time e @ '',''
       @ location e @ '','' @ e_description e @ '','' @ category e @ '',''
       @ to_string (status e) @ '','' @ attendeesToString (attendeeIds e) @ '',''
       @ inventoryToString (allocatedInventory e)"

text \<open>
  The body of the loop over the attendee field: every non-empty token goes through
  \<open>stoi\<close>. This loop is outside the \<open>try\<close> block, so an exception leaves the function.
\<close>

fun parse_attendee_ids :: "string list \<Rightarrow> exn + int list" where
  "parse_attendee_ids [] = Inr []"
| "parse_attendee_ids (t # ts) =
     (if t = [] then parse_attendee_ids ts
      else case stoi t of
             Inl e \<Rightarrow> Inl e
           | Inr n \<Rightarrow> (case parse_attendee_ids ts of Inl e \<Rightarrow> Inl e | Inr ns \<Rightarrow> Inr (n # ns)))"

text \<open>
  The body of the loop over the allocation field: a non-empty token with a colon is
  split at its first colon, and \<open>allocatedInventory[stoi(key)] = stoi(value)\<close> stores the
  pair (the right operand is evaluated first); an exception of either \<open>stoi\<close> is caught
  and reported, and the token is skipped.
\<close>

fun parse_inventory_items :: "string list \<Rightarrow> int_map \<Rightarrow> int_map \<times> diagnostic list" where
  "parse_inventory_items [] m = (m, [])"
| "parse_inventory_items (t # ts) m =
     (if t = [] \<or> CHR '':'' \<notin> set t then parse_inventory_items ts m
      else
        case stoi (tl (dropWhile (\<lambda>c. c \<noteq> CHR '':'') t)) of
          Inl e \<Rightarrow>
            (let (m', ds) = parse_inventory_items ts m
             in (m', MalformedInventoryItemInEvent t e # ds))
        | Inr v \<Rightarrow>
            (case stoi (takeWhile (\<lambda>c. c \<noteq> CHR '':'') t) of
               Inl e \<Rightarrow>
                 (let (m', ds) = parse_inventory_items ts m
                  in (m', MalformedInventoryItemInEvent t e # ds))
             | Inr k \<Rightarrow> parse_inventory_items ts (map_put m k v)))"

text \<open>
  The two optional trailing fields, as the code reads them after the status field. The
  \<open>getline\<close> that read the status has already extracted the comma behind it.
\<close>

definition read_attendeesStr :: "istream \<Rightarrow> string \<Rightarrow> istream \<times> string" where
  "read_attendeesStr ss segment =
     (let (ss1, c1) = peek ss
      in if c1 = Some CHR '','' then
           let (ss2, segment') = getline CHR '','' ss1 segment;
               (ss3, c2) = peek ss2
           in if c2 \<noteq> Some CHR '','' \<and> good ss3 then getline CHR '','' ss3 [] else (ss3, [])
         else (ss1, []))"

definition read_inventoryStr :: "istream \<Rightarrow> istream \<times> string" where
  "read_inventoryStr ss =
     (if good ss then
        let (ss1, c) = peek ss
        in if c \<noteq> None then getline CHR 0x0A ss1 [] else (ss1, [])
      else (ss, []))"

text \<open>
  The handler of \<open>Event::fromString\<close> ends in
  \<open>return Event(0, "ERROR", "ERROR", "ERROR", "ERROR", "ERROR")\<close>. With six arguments
  this is the constructor \<open>Event(string n, string d, string t, string loc, string desc,
  string cat)\<close>, whose first parameter is then a \<open>std::string\<close> built from the null
  pointer constant \<open>0\<close>. The standard library raises \<open>std::logic_error\<close> for it
  (formally the behaviour is undefined); the exception leaves the handler and nothing
  catches it. The result \<open>Inl\<close> stands for an exception that leaves the function, with
  what was written to \<open>cerr\<close> before: the handler writes its warning first.
\<close>

type_synonym 'a thrown = "exn \<times> diagnostic list + 'a \<times> diagnostic list"

definition Event_error :: "string \<Rightarrow> exn \<Rightarrow> Event thrown" where
  "Event_error str e = Inl (logic_error, [MalformedEventLine str e])"

definition Event_parse_fields ::
  "int \<Rightarrow> string \<Rightarrow> string \<Rightarrow> string \<Rightarrow> string \<Rightarrow> string \<Rightarrow> string \<Rightarrow> EventStatus \<Rightarrow>
   string \<Rightarrow> string \<Rightarrow> Event thrown" where
  "Event_parse_fields id_val name date_str time_str loc desc cat stat attendeesStr inventoryStr =
     (case (if attendeesStr \<noteq> []
            then parse_attendee_ids (getline_loop CHR '';'' (stringstream attendeesStr) [])
            else Inr []) of
        Inl e \<Rightarrow> Inl (e, [])
      | Inr ids \<Rightarrow>
          let (m, ds) =
                (if inventoryStr \<noteq> []
                 then parse_inventory_items
                        (getline_loop CHR '';'' (stringstream inventoryStr) []) []
                 else ([], []))
          in Inr (\<lparr>eventId = id_val, e_name = name, date = date_str, time = time_str,
                    location = loc, e_description = desc, category = cat, status = stat,
                    attendeeIds = ids, allocatedInventory = m\<rparr>, ds))"

definition Event_fromString :: "string \<Rightarrow> Event thrown" where
  "Event_fromString str =
     (let (ss1, segment1) = getline CHR '','' (stringstream str) []
      in case stoi segment1 of
           Inl e \<Rightarrow> Event_error str e
         | Inr id_val \<Rightarrow>
             let (ss2, name) = getline CHR '','' ss1 [];
                 (ss3, date_str) = getline CHR '','' ss2 [];
                 (ss4, time_str) = getline CHR '','' ss3 [];
                 (ss5, loc) = getline CHR '','' ss4 [];
                 (ss6, desc) = getline CHR '','' ss5 [];
                 (ss7, cat) = getline CHR '','' ss6 [];
                 (ss8, segment2) = getline CHR '','' ss7 segment1
             in case stoi segment2 of
                  Inl e \<Rightarrow> Event_error str e
                | Inr stat \<Rightarrow>
                    let (ss9, attendeesStr) = read_attendeesStr ss8 segment2;
                        (ss10, inventoryStr) = read_inventoryStr ss9
                    in Event_parse_fields id_val name date_str time_str loc desc cat stat
                         attendeesStr inventoryStr)"


section \<open>Operations on single records\<close>

text \<open>What the operations write to \<open>cout\<close> about their outcome (prompts and menus are left out).\<close>

datatype message =
    AllocationMustBePositive
  | NotEnoughAvailable string int
  | DeallocationMustBePositive
  | CannotDeallocate int string int
  | TotalCannotBeNegative
  | TotalLessThanAllocated int int
  | TotalUpdated string int
  | CheckedInSuccessfully string int
  | AlreadyCheckedIn string int
  | InfoAlreadyRegistered int string
  | UsernameExists
  | PasswordTooShort
  | InvalidRole
  | UserCreated string int
  | CannotDeleteCurrentUser
  | UserDeleted string
  | UserNotFound string
  | LoginSuccessful string
  | LoginFailed
  | LoggingOut string
  | EventCreated string int
  | EventNotFound int
  | EventUpdated
  | StatusUpdated EventStatus
  | InvalidChoice
  | EventDeleted string int
  | OnlyRegularUsers
  | CannotRegister EventStatus
  | RegistrationConfirmed string
  | RegisteredNew string int string
  | RegistrationCanceled string
  | NotRegistered string
  | AttendeeNotFoundOrNotRegistered int int
  | ItemAdded string int
  | ItemNotFound int
  | ItemUpdated
  | Allocated int string string
  | NotAllocatedToEvent string string
  | Deallocated int string string
  | NoQuantityDeallocated
  | ContactUpdated
  | NoGenericProfile

subsection \<open>Attendee\<close>

definition checkIn :: "Attendee \<Rightarrow> Attendee \<times> message list" where
  "checkIn a =
     (if \<not> isCheckedIn a
      then (a\<lparr>isCheckedIn := True\<rparr>, [CheckedInSuccessfully (a_name a) (eventIdRegisteredFor a)])
      else (a, [AlreadyCheckedIn (a_name a) (eventIdRegisteredFor a)]))"

subsection \<open>InventoryItem\<close>

definition getAvailableQuantity :: "InventoryItem \<Rightarrow> int" where
  "getAvailableQuantity i = wrap_int (totalQuantity i - allocatedQuantity i)"

text \<open>\<open>allocate\<close> and \<open>deallocate\<close> return their \<open>bool\<close> with the item as they leave it.\<close>

definition allocate :: "int \<Rightarrow> InventoryItem \<Rightarrow> bool \<times> InventoryItem \<times> message list" where
  "allocate quantityToAllocate i =
     (if quantityToAllocate \<le> 0 then (False, i, [AllocationMustBePositive])
      else if quantityToAllocate \<le> getAvailableQuantity i
      then (True, i\<lparr>allocatedQuantity := wrap_int (allocatedQuantity i + quantityToAllocate)\<rparr>,
            [])
      else (False, i, [NotEnoughAvailable (i_name i) (getAvailableQuantity i)]))"

text \<open>
  In \<open>deallocate\<close> the guard keeps the difference between \<open>0\<close> and \<open>allocatedQuantity\<close>,
  so it cannot leave the range.
\<close>

definition deallocate :: "int \<Rightarrow> InventoryItem \<Rightarrow> bool \<times> InventoryItem \<times> message list" where
  "deallocate quantityToDeallocate i =
     (if quantityToDeallocate \<le> 0 then (False, i, [DeallocationMustBePositive])
      else if quantityToDeallocate \<le> allocatedQuantity i
      then (True, i\<lparr>allocatedQuantity := allocatedQuantity i - quantityToDeallocate\<rparr>, [])
      else (False, i, [CannotDeallocate quantityToDeallocate (i_name i) (allocatedQuantity i)]))"

definition setTotalQuantity :: "int \<Rightarrow> InventoryItem \<Rightarrow> InventoryItem \<times> message list" where
  "setTotalQuantity newTotalQuantity i =
     (if newTotalQuantity < 0 then (i, [TotalCannotBeNegative])
      else if newTotalQuantity < allocatedQuantity i
      then (i, [TotalLessThanAllocated newTotalQuantity (allocatedQuantity i)])
      else (i\<lparr>totalQuantity := newTotalQuantity\<rparr>, [TotalUpdated (i_name i) newTotalQuantity]))"

subsection \<open>Event\<close>

definition addAttendee :: "int \<Rightarrow> Event \<Rightarrow> Event \<times> message list" where
  "addAttendee attId e =
     (if attId \<notin> set (attendeeIds e) then (e\<lparr>attendeeIds := attendeeIds e @ [attId]\<rparr>, [])
      else (e, [InfoAlreadyRegistered attId (e_name e)]))"

definition removeAttendee :: "int \<Rightarrow> Event \<Rightarrow> Event" where
  "removeAttendee attId e = e\<lparr>attendeeIds := remove1 attId (attendeeIds e)\<rparr>"

text \<open>\<open>allocatedInventory[itmId] += quantity\<close>: a missing entry starts from \<open>0\<close>.\<close>

definition allocateInventoryItem :: "int \<Rightarrow> int \<Rightarrow> Event \<Rightarrow> Event" where
  "allocateInventoryItem itmId quantity e =
     (if quantity > 0
      then e\<lparr>allocatedInventory :=
               map_put (allocatedInventory e) itmId
                 (wrap_int (entry (allocatedInventory e) itmId + quantity))\<rparr>
      else e)"

text \<open>
  \<open>deallocateInventoryItem\<close> takes the smaller of the entry and the request from the
  entry; what is left lies between \<open>0\<close> and the entry, so it cannot leave the range.
\<close>

definition deallocateInventoryItem :: "int \<Rightarrow> int \<Rightarrow> Event \<Rightarrow> int \<times> Event" where
  "deallocateInventoryItem itmId quantityToDeallocate e =
     (if quantityToDeallocate \<le> 0 then (0, e)
      else
        case map_find (allocatedInventory e) itmId of
          Some currentQty \<Rightarrow>
            let actualDeallocated = min currentQty quantityToDeallocate;
                remaining = currentQty - actualDeallocated
            in (actualDeallocated,
                e\<lparr>allocatedInventory :=
                    (if remaining \<le> 0 then map_erase (allocatedInventory e) itmId
                     else map_put (allocatedInventory e) itmId remaining)\<rparr>)
        | None \<Rightarrow> (0, e))"

section \<open>Algorithms of the standard library used on the stores\<close>

text \<open>The index of the first element that satisfies a predicate (\<open>std::find_if\<close>).\<close>

fun find_first :: "('a \<Rightarrow> bool) \<Rightarrow> 'a list \<Rightarrow> nat option" where
  "find_first P [] = None"
| "find_first P (x # xs) = (if P x then Some 0 else map_option Suc (find_first P xs))"

text \<open>
  \<open>std::remove_if(first, last, pred)\<close>: after the first match, every later element that
  is kept is move-assigned to the next free slot; the function returns that slot when
  it is done. The vector keeps its length. \<open>mv\<close> is what a move leaves behind in the
  source element. The result is the vector and the index the returned iterator
  points to.
\<close>

function remove_if_loop ::
  "('a \<Rightarrow> bool) \<Rightarrow> ('a \<Rightarrow> 'a) \<Rightarrow> 'a list \<Rightarrow> nat \<Rightarrow> nat \<Rightarrow> 'a list \<times> nat" where
  "remove_if_loop pred mv xs result first =
     (if first < length xs then
        (if \<not> pred (xs ! first)
         then remove_if_loop pred mv (xs[result := xs ! first, first := mv (xs ! first)])
                (Suc result) (Suc first)
         else remove_if_loop pred mv xs result (Suc first))
      else (xs, result))"
  by pat_completeness auto
termination
  by (relation "measure (\<lambda>(pred, mv, xs, result, first). length xs - first)") auto

declare remove_if_loop.simps [simp del]

definition remove_if :: "('a \<Rightarrow> bool) \<Rightarrow> ('a \<Rightarrow> 'a) \<Rightarrow> 'a list \<Rightarrow> 'a list \<times> nat" where
  "remove_if pred mv xs =
     (case find_first pred xs of
        None \<Rightarrow> (xs, length xs)
      | Some i \<Rightarrow> remove_if_loop pred mv xs i (Suc i))"

text \<open>The idiom \<open>v.erase(remove_if(v.begin(), v.end(), pred), v.end())\<close>.\<close>

definition erase_remove_if :: "('a \<Rightarrow> bool) \<Rightarrow> ('a \<Rightarrow> 'a) \<Rightarrow> 'a list \<Rightarrow> 'a list" where
  "erase_remove_if pred mv xs = take (snd (remove_if pred mv xs)) (fst (remove_if pred mv xs))"

text \<open>
  What the implicit move assignment leaves in the source object: the integers, the
  flag and the status are copied, every \<open>std::string\<close>, the \<open>std::vector\<close> and the
  \<open>std::map\<close> are left empty (the standard only promises a valid state; the library
  implementations leave the source empty).
\<close>

definition moved_Attendee :: "Attendee \<Rightarrow> Attendee" where
  "moved_Attendee a = a\<lparr>a_name := [], contactInfo := []\<rparr>"

definition moved_Event :: "Event \<Rightarrow> Event" where
  "moved_Event e =
     e\<lparr>e_name := [], date := [], time := [], location := [], e_description := [],
       category := [], attendeeIds := [], allocatedInventory := []\<rparr>"

text \<open>\<open>toLower\<close>: \<open>tolower\<close> of the C locale on every character.\<close>

definition tolower :: "char \<Rightarrow> char" where
  "tolower c =
     (case map_of (zip ''ABCDEFGHIJKLMNOPQRSTUVWXYZ'' ''abcdefghijklmnopqrstuvwxyz'') c of
        None \<Rightarrow> c
      | Some l \<Rightarrow> l)"

definition toLower :: "string \<Rightarrow> string" where
  "toLower s = map tolower s"


section \<open>The system\<close>

text \<open>
  The state of the process: the four stores, the logged-in user and the four static
  id counters. \<open>users\<close> is a vector of pointers to objects made by \<open>new\<close>, and
  \<open>currentUser\<close> is one more pointer to such an object, so the objects live in a heap
  of their own: \<open>heap\<close> maps an address to the object that lives there, \<open>nextAddr\<close> is
  the address the next \<open>new\<close> returns, and \<open>delete\<close> removes the object.
\<close>

record System =
  heap :: "nat \<Rightarrow> User option"
  nextAddr :: nat
  users :: "nat list"
  events :: "Event list"
  inventory :: "InventoryItem list"
  allAttendees :: "Attendee list"
  currentUser :: "nat option"
  nextUserId :: int
  nextEventId :: int
  nextItemId :: int
  nextAttendeeId :: int

text \<open>The state in which \<open>main\<close> starts loading.\<close>

definition initial_System :: System where
  "initial_System =
     \<lparr>heap = (\<lambda>p. None), nextAddr = 0, users = [], events = [], inventory = [],
      allAttendees = [], currentUser = None, nextUserId = 1, nextEventId = 1,
      nextItemId = 1, nextAttendeeId = 1\<rparr>"

text \<open>
  Reading through \<open>currentUser\<close>. The pointer is null or points to a live object (see
  \<open>deleteUserAccount\<close>); a pointer to a deleted object is read like a null pointer.
\<close>

definition currentUser_record :: "System \<Rightarrow> User option" where
  "currentUser_record s = (case currentUser s of None \<Rightarrow> None | Some p \<Rightarrow> heap s p)"

text \<open>\<open>u->getUsername() == uname\<close> for the object at \<open>p\<close>.\<close>

definition has_username :: "System \<Rightarrow> string \<Rightarrow> nat \<Rightarrow> bool" where
  "has_username s uname p = (case heap s p of None \<Rightarrow> False | Some u \<Rightarrow> username u = uname)"

text \<open>
  The constructors that take an id, and \<open>initNextId\<close>, move the counter of their class
  past the id.
\<close>

definition initNextId :: "int \<Rightarrow> int \<Rightarrow> int" where
  "initNextId ident next = (if ident \<ge> next then wrap_int (ident + 1) else next)"

text \<open>\<open>users.push_back(new ...)\<close> for an object that is already constructed.\<close>

definition push_user :: "User \<Rightarrow> System \<Rightarrow> System" where
  "push_user u s =
     s\<lparr>heap := (heap s)(nextAddr s := Some u), nextAddr := Suc (nextAddr s),
       users := users s @ [nextAddr s]\<rparr>"

subsection \<open>Lookups\<close>

definition findEventById :: "Event list \<Rightarrow> int \<Rightarrow> nat option" where
  "findEventById evs ident = find_first (\<lambda>e. eventId e = ident) evs"

definition findInventoryItemById :: "InventoryItem list \<Rightarrow> int \<Rightarrow> nat option" where
  "findInventoryItemById items ident = find_first (\<lambda>i. itemId i = ident) items"

definition findAttendeeInMasterList :: "Attendee list \<Rightarrow> int \<Rightarrow> nat option" where
  "findAttendeeInMasterList atts ident = find_first (\<lambda>a. attendeeId a = ident) atts"

definition usernameExists :: "System \<Rightarrow> string \<Rightarrow> bool" where
  "usernameExists s uname = list_ex (has_username s uname) (users s)"

subsection \<open>User management and authentication\<close>

definition createUserAccount :: "string \<Rightarrow> string \<Rightarrow> Role \<Rightarrow> System \<Rightarrow> System \<times> message list" where
  "createUserAccount uname pwd r s =
     (if usernameExists s uname then (s, [UsernameExists])
      else if length pwd < 6 then (s, [PasswordTooShort])
      else if r = ADMIN \<or> r = REGULAR_USER then
        (push_user \<lparr>userId = nextUserId s, username = uname, password = pwd, role = r\<rparr>
           (s\<lparr>nextUserId := wrap_int (nextUserId s + 1)\<rparr>),
         [UserCreated uname (nextUserId s)])
      else (s, [InvalidRole]))"

text \<open>
  \<open>deleteUserAccount\<close>: the predicate handed to \<open>remove_if\<close> deletes every object it
  matches; pointers are copied by a move.
\<close>

definition deleteUserAccount :: "string \<Rightarrow> System \<Rightarrow> System \<times> message list" where
  "deleteUserAccount uname s =
     (if (case currentUser_record s of None \<Rightarrow> False | Some u \<Rightarrow> username u = uname)
      then (s, [CannotDeleteCurrentUser])
      else
        let (us, it) = remove_if (has_username s uname) (\<lambda>p. p) (users s)
        in if it \<noteq> length us
           then (s\<lparr>heap := (\<lambda>p. if p \<in> set (users s) \<and> has_username s uname p then None
                                 else heap s p),
                    users := take it us\<rparr>,
                 [UserDeleted uname])
           else (s, [UserNotFound uname]))"

definition login :: "string \<Rightarrow> string \<Rightarrow> System \<Rightarrow> System \<times> message list" where
  "login uname pwd s =
     (case find_first
             (\<lambda>p. case heap s p of None \<Rightarrow> False
                   | Some u \<Rightarrow> username u = uname \<and> password u = pwd) (users s) of
        Some i \<Rightarrow> (s\<lparr>currentUser := Some (users s ! i)\<rparr>, [LoginSuccessful uname])
      | None \<Rightarrow> (s\<lparr>currentUser := None\<rparr>, [LoginFailed]))"

definition logout :: "System \<Rightarrow> System \<times> message list" where
  "logout s =
     (case currentUser_record s of
        Some u \<Rightarrow> (s\<lparr>currentUser := None\<rparr>, [LoggingOut (username u)])
      | None \<Rightarrow> (s, []))"

subsection \<open>Event management\<close>

definition createEvent ::
  "string \<Rightarrow> string \<Rightarrow> string \<Rightarrow> string \<Rightarrow> string \<Rightarrow> string \<Rightarrow> System \<Rightarrow> System \<times> message list" where
  "createEvent n d t loc desc cat s =
     (s\<lparr>events := events s @
           [\<lparr>eventId = nextEventId s, e_name = n, date = d, time = t, location = loc,
             e_description = desc, category = cat, status = UPCOMING, attendeeIds = [],
             allocatedInventory = []\<rparr>],
        nextEventId := wrap_int (nextEventId s + 1)\<rparr>,
      [EventCreated n (nextEventId s)])"

definition editEventDetails :: "int \<Rightarrow> int \<Rightarrow> string \<Rightarrow> System \<Rightarrow> System \<times> message list" where
  "editEventDetails ident choice new_val s =
     (case findEventById (events s) ident of
        None \<Rightarrow> (s, [EventNotFound ident])
      | Some i \<Rightarrow>
          let event = events s ! i
          in if choice = 1 then (s\<lparr>events := (events s)[i := event\<lparr>e_name := new_val\<rparr>]\<rparr>, [EventUpdated])
             else if choice = 2 then (s\<lparr>events := (events s)[i := event\<lparr>date := new_val\<rparr>]\<rparr>, [EventUpdated])
             else if choice = 3 then (s\<lparr>events := (events s)[i := event\<lparr>time := new_val\<rparr>]\<rparr>, [EventUpdated])
             else if choice = 4 then (s\<lparr>events := (events s)[i := event\<lparr>location := new_val\<rparr>]\<rparr>, [EventUpdated])
             else if choice = 5 then (s\<lparr>events := (events s)[i := event\<lparr>e_description := new_val\<rparr>]\<rparr>, [EventUpdated])
             else if choice = 6 then (s\<lparr>events := (events s)[i := event\<lparr>category := new_val\<rparr>]\<rparr>, [EventUpdated])
             else if choice = 7 then (s, [])
             else (s, [InvalidChoice]))"

text \<open>The new status is \<open>choice - 1\<close> for a choice between 1 and 4.\<close>

definition updateEventStatus :: "int \<Rightarrow> int \<Rightarrow> System \<Rightarrow> System \<times> message list" where
  "updateEventStatus ident choice s =
     (case findEventById (events s) ident of
        None \<Rightarrow> (s, [EventNotFound ident])
      | Some i \<Rightarrow>
          if 1 \<le> choice \<and> choice \<le> 4
          then (s\<lparr>events := (events s)[i := (events s ! i)\<lparr>status := choice - 1\<rparr>]\<rparr>,
                [StatusUpdated (choice - 1)])
          else (s, [InvalidChoice]))"

text \<open>
  The loop of \<open>deleteEvent\<close> over an allocation map: every pair whose item exists goes
  through \<open>InventoryItem::deallocate\<close>, whose \<open>bool\<close> is ignored and whose message, when
  it refuses, is printed.
\<close>

fun return_allocations ::
  "int_map \<Rightarrow> InventoryItem list \<Rightarrow> InventoryItem list \<times> message list" where
  "return_allocations [] items = (items, [])"
| "return_allocations ((k, v) # m) items =
     (case findInventoryItemById items k of
        None \<Rightarrow> return_allocations m items
      | Some i \<Rightarrow>
          (fst (return_allocations m (items[i := fst (snd (deallocate v (items ! i)))])),
           snd (snd (deallocate v (items ! i)))
             @ snd (return_allocations m (items[i := fst (snd (deallocate v (items ! i)))]))))"

text \<open>
  \<open>deleteEvent\<close> reads the allocation map, the name and the id through the iterator
  that \<open>remove_if\<close> returned, that is from the element of the shuffled vector at that
  index, and only then erases the tail.
\<close>

definition deleteEvent :: "int \<Rightarrow> System \<Rightarrow> System \<times> message list" where
  "deleteEvent ident s =
     (let (evs, it) = remove_if (\<lambda>e. eventId e = ident) moved_Event (events s)
      in if it \<noteq> length evs
         then (s\<lparr>inventory :=
                    fst (return_allocations (allocatedInventory (evs ! it)) (inventory s)),
                  allAttendees :=
                    erase_remove_if (\<lambda>att. eventIdRegisteredFor att = ident) moved_Attendee
                      (allAttendees s),
                  events := take it evs\<rparr>,
               snd (return_allocations (allocatedInventory (evs ! it)) (inventory s))
                 @ [EventDeleted (e_name (evs ! it)) (eventId (evs ! it))])
         else (s, [EventNotFound ident]))"

subsection \<open>Attendee management\<close>

definition registerAttendeeForEvent :: "int \<Rightarrow> string \<Rightarrow> System \<Rightarrow> System \<times> message list" where
  "registerAttendeeForEvent ident contact s =
     (case currentUser_record s of
        None \<Rightarrow> (s, [OnlyRegularUsers])
      | Some cu \<Rightarrow>
          if role cu = ADMIN then (s, [OnlyRegularUsers])
          else
            case findEventById (events s) ident of
              None \<Rightarrow> (s, [EventNotFound ident])
            | Some ei \<Rightarrow>
                let event = events s ! ei
                in if status event = CANCELED \<or> status event = COMPLETED
                   then (s, [CannotRegister (status event)])
                   else
                     case find_first
                            (\<lambda>att. toLower (a_name att) = toLower (username cu) \<and>
                                   eventIdRegisteredFor att = ident) (allAttendees s) of
                       Some ai \<Rightarrow>
                         let (event', ms) = addAttendee (attendeeId (allAttendees s ! ai)) event
                         in (s\<lparr>events := (events s)[ei := event']\<rparr>,
                             ms @ [RegistrationConfirmed (e_name event)])
                     | None \<Rightarrow>
                         (case find_first
                                 (\<lambda>att. toLower (a_name att) = toLower (username cu) \<and>
                                        eventIdRegisteredFor att = 0) (allAttendees s) of
                            Some ai \<Rightarrow>
                              let (event', ms) = addAttendee (attendeeId (allAttendees s ! ai)) event
                              in (s\<lparr>allAttendees :=
                                       (allAttendees s)
                                         [ai := (allAttendees s ! ai)\<lparr>contactInfo := contact\<rparr>],
                                     events := (events s)[ei := event']\<rparr>,
                                  ms @ [RegistrationConfirmed (e_name event)])
                          | None \<Rightarrow>
                              let newAttendee =
                                    \<lparr>attendeeId = nextAttendeeId s, a_name = username cu,
                                     contactInfo = contact, eventIdRegisteredFor = ident,
                                     isCheckedIn = False\<rparr>;
                                  (event', ms) = addAttendee (attendeeId newAttendee) event
                              in (s\<lparr>allAttendees := allAttendees s @ [newAttendee],
                                     nextAttendeeId := wrap_int (nextAttendeeId s + 1),
                                     events := (events s)[ei := event']\<rparr>,
                                  ms @ [RegisteredNew (a_name newAttendee) (attendeeId newAttendee)
                                          (e_name event)])))"

definition cancelOwnRegistration :: "int \<Rightarrow> System \<Rightarrow> System \<times> message list" where
  "cancelOwnRegistration ident s =
     (case currentUser_record s of
        None \<Rightarrow> (s, [OnlyRegularUsers])
      | Some cu \<Rightarrow>
          if role cu = ADMIN then (s, [OnlyRegularUsers])
          else
            case findEventById (events s) ident of
              None \<Rightarrow> (s, [EventNotFound ident])
            | Some ei \<Rightarrow>
                let event = events s ! ei;
                    attendeeIdToCancel =
                      (case find_first
                              (\<lambda>att. toLower (a_name att) = toLower (username cu) \<and>
                                     eventIdRegisteredFor att = ident) (allAttendees s) of
                         None \<Rightarrow> - 1
                       | Some ai \<Rightarrow> attendeeId (allAttendees s ! ai))
                in if attendeeIdToCancel \<noteq> - 1
                   then (s\<lparr>events := (events s)[ei := removeAttendee attendeeIdToCancel event],
                            allAttendees :=
                              erase_remove_if (\<lambda>att. attendeeId att = attendeeIdToCancel)
                                moved_Attendee (allAttendees s)\<rparr>,
                         [RegistrationCanceled (e_name event)])
                   else (s, [NotRegistered (e_name event)]))"

definition checkInAttendeeForEvent :: "int \<Rightarrow> int \<Rightarrow> System \<Rightarrow> System \<times> message list" where
  "checkInAttendeeForEvent ident attId s =
     (case findEventById (events s) ident of
        None \<Rightarrow> (s, [EventNotFound ident])
      | Some ei \<Rightarrow>
          (case findAttendeeInMasterList (allAttendees s) attId of
             None \<Rightarrow> (s, [AttendeeNotFoundOrNotRegistered attId ident])
           | Some ai \<Rightarrow>
               if eventIdRegisteredFor (allAttendees s ! ai) = ident
               then let (a', ms) = checkIn (allAttendees s ! ai)
                    in (s\<lparr>allAttendees := (allAttendees s)[ai := a']\<rparr>, ms)
               else (s, [AttendeeNotFoundOrNotRegistered attId ident])))"

text \<open>
  The loop of \<open>updateCurrentLoggedInUserContactInfo\<close>: it stops at the first generic
  profile of the user, whose contact is then replaced; on its way it replaces the
  contact of every other record with the user's name. The flag tells whether a generic
  profile was found.
\<close>

fun update_contacts :: "string \<Rightarrow> string \<Rightarrow> Attendee list \<Rightarrow> Attendee list \<times> bool" where
  "update_contacts uname newContact [] = ([], False)"
| "update_contacts uname newContact (att # atts) =
     (if toLower (a_name att) = toLower uname \<and> eventIdRegisteredFor att = 0
      then (att\<lparr>contactInfo := newContact\<rparr> # atts, True)
      else
        let (atts', found) = update_contacts uname newContact atts
        in if toLower (a_name att) = toLower uname
           then (att\<lparr>contactInfo := newContact\<rparr> # atts', found)
           else (att # atts', found))"

definition updateCurrentLoggedInUserContactInfo :: "string \<Rightarrow> System \<Rightarrow> System \<times> message list" where
  "updateCurrentLoggedInUserContactInfo newContact s =
     (case currentUser_record s of
        None \<Rightarrow> (s, [OnlyRegularUsers])
      | Some cu \<Rightarrow>
          if role cu = ADMIN then (s, [OnlyRegularUsers])
          else
            let (atts', found) = update_contacts (username cu) newContact (allAttendees s)
            in if found then (s\<lparr>allAttendees := atts'\<rparr>, [ContactUpdated])
               else (s\<lparr>allAttendees := atts' @
                          [\<lparr>attendeeId = nextAttendeeId s, a_name = username cu,
                            contactInfo = newContact, eventIdRegisteredFor = 0,
                            isCheckedIn = False\<rparr>],
                        nextAttendeeId := wrap_int (nextAttendeeId s + 1)\<rparr>,
                     [NoGenericProfile]))"

subsection \<open>Inventory management\<close>

definition addInventoryItem :: "string \<Rightarrow> int \<Rightarrow> string \<Rightarrow> System \<Rightarrow> System \<times> message list" where
  "addInventoryItem n quantity desc s =
     (s\<lparr>inventory := inventory s @
           [\<lparr>itemId = nextItemId s, i_name = n, totalQuantity = quantity,
             allocatedQuantity = 0, i_description = desc\<rparr>],
        nextItemId := wrap_int (nextItemId s + 1)\<rparr>,
      [ItemAdded n (nextItemId s)])"

definition updateInventoryItemDetails ::
  "int \<Rightarrow> int \<Rightarrow> string \<Rightarrow> int \<Rightarrow> System \<Rightarrow> System \<times> message list" where
  "updateInventoryItemDetails ident choice new_str_val new_int_val s =
     (case findInventoryItemById (inventory s) ident of
        None \<Rightarrow> (s, [ItemNotFound ident])
      | Some i \<Rightarrow>
          let item = inventory s ! i
          in if choice = 1
             then (s\<lparr>inventory := (inventory s)[i := item\<lparr>i_name := new_str_val\<rparr>]\<rparr>, [ItemUpdated])
             else if choice = 2
             then let (item', ms) = setTotalQuantity new_int_val item
                  in (s\<lparr>inventory := (inventory s)[i := item']\<rparr>, ms @ [ItemUpdated])
             else if choice = 3
             then (s\<lparr>inventory := (inventory s)[i := item\<lparr>i_description := new_str_val\<rparr>]\<rparr>,
                   [ItemUpdated])
             else if choice = 4 then (s, [])
             else (s, [InvalidChoice]))"

definition trackInventoryAllocationToEvent ::
  "int \<Rightarrow> int \<Rightarrow> int \<Rightarrow> int \<Rightarrow> System \<Rightarrow> System \<times> message list" where
  "trackInventoryAllocationToEvent ident choice itmId quantity s =
     (case findEventById (events s) ident of
        None \<Rightarrow> (s, [EventNotFound ident])
      | Some ei \<Rightarrow>
          let event = events s ! ei
          in if choice = 1 then
               (case findInventoryItemById (inventory s) itmId of
                  None \<Rightarrow> (s, [ItemNotFound itmId])
                | Some ii \<Rightarrow>
                    let item = inventory s ! ii;
                        (ok, item', ms) = allocate quantity item
                    in if ok
                       then (s\<lparr>inventory := (inventory s)[ii := item'],
                                events := (events s)
                                  [ei := allocateInventoryItem (itemId item') quantity event]\<rparr>,
                             ms @ [Allocated quantity (i_name item') (e_name event)])
                       else (s, ms))
             else if choice = 2 then
               (case findInventoryItemById (inventory s) itmId of
                  None \<Rightarrow> (s, [ItemNotFound itmId])
                | Some ii \<Rightarrow>
                    let item = inventory s ! ii
                    in case map_find (allocatedInventory event) itmId of
                         None \<Rightarrow> (s, [NotAllocatedToEvent (i_name item) (e_name event)])
                       | Some currentQty \<Rightarrow>
                           let (actualDeallocated, event') =
                                 deallocateInventoryItem (itemId item) quantity event
                           in if actualDeallocated > 0
                              then let (ok, item', ms) = deallocate actualDeallocated item
                                   in (s\<lparr>events := (events s)[ei := event'],
                                          inventory := (inventory s)[ii := item']\<rparr>,
                                       ms @ [Deallocated actualDeallocated (i_name item')
                                               (e_name event)])
                              else (s\<lparr>events := (events s)[ei := event']\<rparr>,
                                    [NoQuantityDeallocated]))
             else (s, []))"


subsection \<open>Loading\<close>

text \<open>
  A file is the list of its lines, \<open>None\<close> when it cannot be opened. Every loader skips
  empty lines and appends what the decoder returns; only \<open>loadUsers\<close> tests the result
  before it appends.
\<close>

type_synonym text_file = "string list option"

definition load_user_line :: "string \<Rightarrow> System \<times> diagnostic list \<Rightarrow> System \<times> diagnostic list" where
  "load_user_line line acc =
     (if line = [] then acc
      else case User_fromString line of
             (None, d) \<Rightarrow> (fst acc, snd acc @ d)
           | (Some u, d) \<Rightarrow>
               (push_user u
                  ((fst acc)\<lparr>nextUserId := initNextId (userId u) (nextUserId (fst acc))\<rparr>),
                snd acc @ d))"

definition loadUsers :: "text_file \<Rightarrow> System \<Rightarrow> System \<times> diagnostic list" where
  "loadUsers f s =
     (case f of None \<Rightarrow> (s, []) | Some lines \<Rightarrow> foldl (\<lambda>acc l. load_user_line l acc) (s, []) lines)"

definition load_inventory_line ::
  "string \<Rightarrow> System \<times> diagnostic list \<Rightarrow> System \<times> diagnostic list" where
  "load_inventory_line line acc =
     (if line = [] then acc
      else let (i, d) = InventoryItem_fromString line
           in ((fst acc)\<lparr>inventory := inventory (fst acc) @ [i],
                          nextItemId := initNextId (itemId i) (nextItemId (fst acc))\<rparr>,
               snd acc @ d))"

definition loadInventory :: "text_file \<Rightarrow> System \<Rightarrow> System \<times> diagnostic list" where
  "loadInventory f s =
     (case f of None \<Rightarrow> (s, [])
      | Some lines \<Rightarrow> foldl (\<lambda>acc l. load_inventory_line l acc) (s, []) lines)"

definition load_attendee_line ::
  "string \<Rightarrow> System \<times> diagnostic list \<Rightarrow> System \<times> diagnostic list" where
  "load_attendee_line line acc =
     (if line = [] then acc
      else let (a, d) = Attendee_fromString line
           in ((fst acc)\<lparr>allAttendees := allAttendees (fst acc) @ [a],
                          nextAttendeeId := initNextId (attendeeId a) (nextAttendeeId (fst acc))\<rparr>,
               snd acc @ d))"

definition loadAttendees :: "text_file \<Rightarrow> System \<Rightarrow> System \<times> diagnostic list" where
  "loadAttendees f s =
     (case f of None \<Rightarrow> (s, [])
      | Some lines \<Rightarrow> foldl (\<lambda>acc l. load_attendee_line l acc) (s, []) lines)"

text \<open>An exception that leaves \<open>Event::fromString\<close> ends the loop and the program.\<close>

fun load_event_lines :: "string list \<Rightarrow> System \<times> diagnostic list \<Rightarrow> System thrown" where
  "load_event_lines [] acc = Inr acc"
| "load_event_lines (line # rest) acc =
     (if line = [] then load_event_lines rest acc
      else case Event_fromString line of
             Inl (e, d) \<Rightarrow> Inl (e, snd acc @ d)
           | Inr (ev, d) \<Rightarrow>
               load_event_lines rest
                 ((fst acc)\<lparr>events := events (fst acc) @ [ev],
                             nextEventId := initNextId (eventId ev) (nextEventId (fst acc))\<rparr>,
                  snd acc @ d))"

definition loadEvents :: "text_file \<Rightarrow> System \<Rightarrow> System thrown" where
  "loadEvents f s = (case f of None \<Rightarrow> Inr (s, []) | Some lines \<Rightarrow> load_event_lines lines (s, []))"

text \<open>The largest id of a store, starting from \<open>0\<close>, as the loops of \<open>loadData\<close> find it.\<close>

definition max_id :: "int list \<Rightarrow> int" where
  "max_id ids = foldl (\<lambda>maxId x. if x > maxId then x else maxId) 0 ids"

text \<open>
  The last two loops of \<open>loadData\<close>: every item's \<open>allocatedQuantity\<close> is set to \<open>0\<close>;
  then, event by event and pair by pair, the quantity is added to the item that
  \<open>findInventoryItemById\<close> returns for the key.
\<close>

definition reset_allocated :: "InventoryItem list \<Rightarrow> InventoryItem list" where
  "reset_allocated items = map (\<lambda>i. i\<lparr>allocatedQuantity := 0\<rparr>) items"

fun add_allocations :: "int_map \<Rightarrow> InventoryItem list \<Rightarrow> InventoryItem list" where
  "add_allocations [] items = items"
| "add_allocations ((k, v) # m) items =
     (case findInventoryItemById items k of
        None \<Rightarrow> add_allocations m items
      | Some i \<Rightarrow>
          add_allocations m
            (items[i := (items ! i)\<lparr>allocatedQuantity :=
                                        wrap_int (allocatedQuantity (items ! i) + v)\<rparr>]))"

definition reconcile_allocations :: "Event list \<Rightarrow> InventoryItem list \<Rightarrow> InventoryItem list" where
  "reconcile_allocations evs items =
     foldl (\<lambda>acc e. add_allocations (allocatedInventory e) acc) (reset_allocated items) evs"

definition loadData ::
  "text_file \<Rightarrow> text_file \<Rightarrow> text_file \<Rightarrow> text_file \<Rightarrow> System \<Rightarrow> System thrown" where
  "loadData usersFile eventsFile inventoryFile attendeesFile s =
     (let (s1, d1) = loadUsers usersFile s
      in case loadEvents eventsFile s1 of
           Inl (e, d2) \<Rightarrow> Inl (e, d1 @ d2)
         | Inr (s2, d2) \<Rightarrow>
             let (s3, d3) = loadInventory inventoryFile s2;
                 (s4, d4) = loadAttendees attendeesFile s3;
                 s5 = s4\<lparr>nextUserId :=
                           initNextId
                             (max_id (map (\<lambda>p. case heap s4 p of None \<Rightarrow> 0 | Some u \<Rightarrow> userId u)
                                        (users s4)))
                             (nextUserId s4),
                         nextEventId := initNextId (max_id (map eventId (events s4))) (nextEventId s4),
                         nextItemId := initNextId (max_id (map itemId (inventory s4))) (nextItemId s4),
                         nextAttendeeId :=
                           initNextId (max_id (map attendeeId (allAttendees s4)))
                             (nextAttendeeId s4)\<rparr>
             in Inr (s5\<lparr>inventory := reconcile_allocations (events s5) (inventory s5)\<rparr>,
                     d1 @ d2 @ d3 @ d4))"

text \<open>
  Every operation a menu can start that changes the state, with the values the user is
  asked for.
\<close>

datatype operation =
    CreateUserAccount string string Role
  | DeleteUserAccount string
  | Login string string
  | Logout
  | CreateEvent string string string string string string
  | EditEventDetails int int string
  | UpdateEventStatus int int
  | DeleteEvent int
  | RegisterAttendeeForEvent int string
  | CancelOwnRegistration int
  | CheckInAttendeeForEvent int int
  | UpdateCurrentLoggedInUserContactInfo string
  | AddInventoryItem string int string
  | UpdateInventoryItemDetails int int string int
  | TrackInventoryAllocationToEvent int int int int

fun run :: "operation \<Rightarrow> System \<Rightarrow> System \<times> message list" where
  "run (CreateUserAccount uname pwd r) s = createUserAccount uname pwd r s"
| "run (DeleteUserAccount uname) s = deleteUserAccount uname s"
| "run (Login uname pwd) s = login uname pwd s"
| "run Logout s = logout s"
| "run (CreateEvent n d t loc desc cat) s = createEvent n d t loc desc cat s"
| "run (EditEventDetails ident choice new_val) s = editEventDetails ident choice new_val s"
| "run (UpdateEventStatus ident choice) s = updateEventStatus ident choice s"
| "run (DeleteEvent ident) s = deleteEvent ident s"
| "run (RegisterAttendeeForEvent ident contact) s = registerAttendeeForEvent ident contact s"
| "run (CancelOwnRegistration ident) s = cancelOwnRegistration ident s"
| "run (CheckInAttendeeForEvent ident attId) s = checkInAttendeeForEvent ident attId s"
| "run (UpdateCurrentLoggedInUserContactInfo newContact) s =
     updateCurrentLoggedInUserContactInfo newContact s"
| "run (AddInventoryItem n quantity desc) s = addInventoryItem n quantity desc s"
| "run (UpdateInventoryItemDetails ident choice new_str_val new_int_val) s =
     updateInventoryItemDetails ident choice new_str_val new_int_val s"
| "run (TrackInventoryAllocationToEvent ident choice itmId quantity) s =
     trackInventoryAllocationToEvent ident choice itmId quantity s"


section \<open>Evaluation of the decoders on concrete lines\<close>

lemmas stream_eval =
  getline_def stringstream_def good_def peek_def getline_loop.simps

lemmas number_eval =
  to_string_def show_nat.simps digit_char_def stoi_def isspace_def isdigit_def
  digits_value_def digit_val_def INT_MIN_def INT_MAX_def

lemmas Event_eval =
  Event_toString_def Event_fromString_def inventoryToString_def read_attendeesStr_def
  read_inventoryStr_def Event_parse_fields_def Event_error_def

section \<open>The round trip through the line encoding\<close>

subsection \<open>Numbers\<close>

text \<open>
  What \<open>ss << n\<close> writes for an \<open>int\<close> is read back by \<open>std::stoi\<close> as the same
  number, and contains no comma.
\<close>

lemma digit_cases:
  "m < 10 \<Longrightarrow> m = 0 \<or> m = 1 \<or> m = 2 \<or> m = 3 \<or> m = 4 \<or> m = 5 \<or> m = 6 \<or> m = 7 \<or> m = 8
     \<or> m = (9::nat)"
  by arith

lemma digit_char_facts:
  "isdigit (digit_char n)" "digit_val (digit_char n) = n mod 10"
  "\<not> isspace (digit_char n)" "digit_char n \<noteq> CHR ''-''" "digit_char n \<noteq> CHR ''+''"
  "digit_char n \<noteq> CHR '',''"
proof -
  have "n mod 10 < 10" by simp
  from digit_cases [OF this]
  show "isdigit (digit_char n)" "digit_val (digit_char n) = n mod 10"
    "\<not> isspace (digit_char n)" "digit_char n \<noteq> CHR ''-''" "digit_char n \<noteq> CHR ''+''"
    "digit_char n \<noteq> CHR '',''"
    by (auto simp: digit_char_def isdigit_def digit_val_def isspace_def)
qed

lemma show_nat_digits: "list_all isdigit (show_nat n)"
proof (induction n rule: show_nat.induct)
  case (1 n)
  then show ?case by (subst show_nat.simps) (simp add: digit_char_facts)
qed

lemma show_nat_not_empty: "show_nat n \<noteq> []"
  by (subst show_nat.simps) simp

lemma digits_value_snoc: "digits_value (ds @ [c]) = 10 * digits_value ds + digit_val c"
  by (simp add: digits_value_def)

lemma digits_value_show_nat: "digits_value (show_nat n) = n"
proof (induction n rule: show_nat.induct)
  case (1 n)
  show ?case
  proof (cases "n < 10")
    case True
    then show ?thesis
      by (subst show_nat.simps) (simp add: digits_value_def digit_char_facts)
  next
    case False
    with "1.IH" have "digits_value (show_nat (n div 10)) = n div 10" by simp
    with False show ?thesis
      by (subst show_nat.simps) (simp add: digits_value_snoc digit_char_facts)
  qed
qed

lemma takeWhile_all: "list_all P xs \<Longrightarrow> takeWhile P xs = xs"
  by (simp add: list_all_iff)

lemma hd_show_nat:
  "\<not> isspace (hd (show_nat n))" "hd (show_nat n) \<noteq> CHR ''-''" "hd (show_nat n) \<noteq> CHR ''+''"
proof -
  from show_nat_not_empty [of n] show_nat_digits [of n]
  have "isdigit (hd (show_nat n))" by (cases "show_nat n") simp_all
  then show "\<not> isspace (hd (show_nat n))" "hd (show_nat n) \<noteq> CHR ''-''"
    "hd (show_nat n) \<noteq> CHR ''+''"
    by (auto simp: isdigit_def isspace_def)
qed

lemma stoi_unsigned:
  assumes "\<not> isspace c" "c \<noteq> CHR ''-''" "c \<noteq> CHR ''+''"
    and "takeWhile isdigit (c # cs) = ds" "ds \<noteq> []" "int (digits_value ds) \<le> INT_MAX"
  shows "stoi (c # cs) = Inr (int (digits_value ds))"
proof -
  have "INT_MIN \<le> int (digits_value ds)" by (simp add: INT_MIN_def)
  with assms show ?thesis by (simp add: stoi_def Let_def)
qed

lemma stoi_show_nat:
  "int n \<le> INT_MAX \<Longrightarrow> stoi (show_nat n) = Inr (int n)"
proof -
  assume r: "int n \<le> INT_MAX"
  obtain c cs where s: "show_nat n = c # cs"
    using show_nat_not_empty [of n] by (cases "show_nat n") auto
  from hd_show_nat [of n] s
  have c: "\<not> isspace c" "c \<noteq> CHR ''-''" "c \<noteq> CHR ''+''" by simp_all
  have tw: "takeWhile isdigit (c # cs) = show_nat n"
    unfolding s [symmetric] by (rule takeWhile_all) (rule show_nat_digits)
  have "stoi (c # cs) = Inr (int (digits_value (show_nat n)))"
    by (rule stoi_unsigned [OF c tw show_nat_not_empty])
       (simp add: digits_value_show_nat r)
  then show ?thesis by (simp only: s [symmetric] digits_value_show_nat)
qed

lemma stoi_to_string:
  "INT_MIN \<le> i \<Longrightarrow> i \<le> INT_MAX \<Longrightarrow> stoi (to_string i) = Inr i"
proof (cases "i < 0")
  case False
  assume "i \<le> INT_MAX"
  with False show ?thesis using stoi_show_nat [of "nat i"] by (simp add: to_string_def)
next
  case True
  assume r: "INT_MIN \<le> i"
  have tw: "takeWhile isdigit (show_nat (nat (- i))) = show_nat (nat (- i))"
    by (rule takeWhile_all) (rule show_nat_digits)
  have dv: "int (digits_value (show_nat (nat (- i)))) = - i"
    using True by (simp add: digits_value_show_nat)
  from True r show ?thesis
    unfolding to_string_def stoi_def Let_def
    by (simp add: isspace_def tw dv show_nat_not_empty INT_MAX_def)
qed

lemma comma_not_in_to_string: "CHR '','' \<notin> set (to_string i)"
proof -
  have nd: "\<not> isdigit CHR '',''" by (simp add: isdigit_def)
  have "CHR '','' \<notin> set (show_nat n)" for n
  proof
    assume "CHR '','' \<in> set (show_nat n)"
    moreover have "\<forall>c\<in>set (show_nat n). isdigit c"
      using show_nat_digits [of n] by (simp only: list_all_iff)
    ultimately show False using nd by blast
  qed
  then show ?thesis by (simp add: to_string_def)
qed


subsection \<open>Fields\<close>

text \<open>
  \<open>getline\<close> on a fresh stream returns the text in front of the first delimiter and
  extracts the delimiter; without a delimiter it returns the whole buffer and sets
  \<open>eofbit\<close>.
\<close>

lemma getline_field:
  "delim \<notin> set tok \<Longrightarrow>
   getline delim \<lparr>buf = tok @ delim # rest, eofbit = False, failbit = False\<rparr> old
     = (\<lparr>buf = rest, eofbit = False, failbit = False\<rparr>, tok)"
  using getline_delim [of "\<lparr>buf = tok @ delim # rest, eofbit = False, failbit = False\<rparr>"
      tok delim rest old]
  by (simp add: good_def)

lemma getline_last_field:
  "delim \<notin> set tok \<Longrightarrow>
   getline delim \<lparr>buf = tok, eofbit = False, failbit = False\<rparr> old
     = (\<lparr>buf = [], eofbit = True, failbit = (tok = [])\<rparr>, tok)"
  using getline_eof [of "\<lparr>buf = tok, eofbit = False, failbit = False\<rparr>" delim old]
  by (simp add: good_def)

subsection \<open>User, Attendee and InventoryItem\<close>

text \<open>
  A record of these three types is decoded from its own line as the same record, with
  no diagnostic, when its numbers fit an \<open>int\<close> and its text fields hold no comma. The
  description of an item is the last field and is read to the end of the line, so it
  may hold commas but no line feed. A user has one of the two roles that the decoder
  knows.
\<close>

lemma stoi_to_string_range: "in_int_range i \<Longrightarrow> stoi (to_string i) = Inr i"
  by (simp add: in_int_range_def stoi_to_string)

lemma Attendee_round_trip:
  assumes "CHR '','' \<notin> set (a_name a)" "CHR '','' \<notin> set (contactInfo a)"
    and "in_int_range (attendeeId a)" "in_int_range (eventIdRegisteredFor a)"
  shows "Attendee_fromString (Attendee_toString a) = (a, [])"
  using assms
  by (cases "isCheckedIn a")
     (simp_all add: Attendee_fromString_def Attendee_toString_def stringstream_def
        getline_field getline_last_field comma_not_in_to_string stoi_to_string_range)

lemma InventoryItem_round_trip:
  assumes "CHR '','' \<notin> set (i_name i)" "CHR 0x0A \<notin> set (i_description i)"
    and "in_int_range (itemId i)" "in_int_range (totalQuantity i)"
    "in_int_range (allocatedQuantity i)"
  shows "InventoryItem_fromString (InventoryItem_toString i) = (i, [])"
  using assms
  by (simp add: InventoryItem_fromString_def InventoryItem_toString_def stringstream_def
      getline_field getline_last_field comma_not_in_to_string stoi_to_string_range)

lemma to_string_small: "to_string 0 = ''0''" "to_string 1 = ''1''"
  by (simp_all add: to_string_def show_nat.simps digit_char_def)

lemma User_round_trip:
  assumes "CHR '','' \<notin> set (username u)" "CHR '','' \<notin> set (password u)"
    and "in_int_range (userId u)" "role u \<noteq> NONE"
  shows "User_fromString (User_toString u) = (Some u, [])"
proof -
  have c0: "count_list (to_string (userId u)) CHR '','' = 0"
    "count_list (username u) CHR '','' = 0" "count_list (password u) CHR '','' = 0"
    using assms comma_not_in_to_string by (simp_all add: count_list_0_iff)
  from assms(4) have r: "role u = ADMIN \<or> role u = REGULAR_USER" by (cases "role u") simp_all
  then show ?thesis
  proof
    assume "role u = ADMIN"
    with assms c0 show ?thesis
      by (simp add: User_fromString_def User_toString_def stringstream_def to_string_small
          getline_field getline_last_field comma_not_in_to_string stoi_to_string_range
          stoi_to_string_range [of 0, unfolded to_string_small] in_int_range_def
          INT_MIN_def INT_MAX_def)
  next
    assume "role u = REGULAR_USER"
    with assms c0 show ?thesis
      by (simp add: User_fromString_def User_toString_def stringstream_def to_string_small
          getline_field getline_last_field comma_not_in_to_string stoi_to_string_range
          stoi_to_string_range [of 1, unfolded to_string_small] in_int_range_def
          INT_MIN_def INT_MAX_def)
  qed
qed


subsection \<open>Event\<close>

text \<open>
  The line of an event ends in the attendee field, a comma and the allocation field.
  The \<open>getline\<close> that reads the status extracts the comma in front of the attendee
  field, so the test \<open>ss.peek() == ','\<close> sees the first character of the attendee
  field. With an attendee this is a digit or a minus sign, and the attendee field is
  taken for absent; with no attendee it is the separating comma, and the allocation
  field is read as the attendee field. An event with plain fields is therefore decoded
  from its own line as the same event exactly when it has no attendee and no
  allocation.
\<close>

lemma to_string_hd: "\<exists>c cs. to_string i = c # cs \<and> c \<noteq> CHR '',''"
proof (cases "to_string i")
  case Nil
  then show ?thesis
    using show_nat_not_empty by (simp add: to_string_def split: if_splits)
next
  case (Cons c cs)
  with comma_not_in_to_string [of i] show ?thesis by auto
qed

lemma attendeesToString_hd:
  assumes "ids \<noteq> []"
  shows "\<exists>c cs. attendeesToString ids = c # cs \<and> c \<noteq> CHR '',''"
proof -
  from assms obtain x xs where ids: "ids = x # xs" by (cases ids) auto
  obtain c cs where c: "to_string x = c # cs" "c \<noteq> CHR '',''"
    using to_string_hd by blast
  show ?thesis using ids c by (cases xs) simp_all
qed

definition plain_fields :: "Event \<Rightarrow> bool" where
  "plain_fields e \<longleftrightarrow>
     CHR '','' \<notin> set (e_name e) \<and> CHR '','' \<notin> set (date e) \<and> CHR '','' \<notin> set (time e) \<and>
     CHR '','' \<notin> set (location e) \<and> CHR '','' \<notin> set (e_description e) \<and>
     CHR '','' \<notin> set (category e) \<and> in_int_range (eventId e) \<and> in_int_range (status e)"

lemma getline_empty_field:
  "getline delim \<lparr>buf = delim # rest, eofbit = False, failbit = False\<rparr> old
     = (\<lparr>buf = rest, eofbit = False, failbit = False\<rparr>, [])"
  using getline_field [of delim "[]" rest old] by simp

lemma Event_round_trip_empty:
  assumes "plain_fields e" "attendeeIds e = []" "allocatedInventory e = []"
  shows "Event_fromString (Event_toString e) = Inr (e, [])"
  using assms
  by (simp add: plain_fields_def Event_fromString_def Event_toString_def stringstream_def
      getline_field comma_not_in_to_string stoi_to_string_range read_attendeesStr_def
      peek_def read_inventoryStr_def Event_parse_fields_def inventoryToString_def good_def
      getline_empty_field)

lemma Event_round_trip_drops_attendees:
  assumes "plain_fields e" "attendeeIds e \<noteq> []"
  shows "\<exists>ev ds. Event_fromString (Event_toString e) = Inr (ev, ds) \<and> attendeeIds ev = []"
proof -
  obtain c cs where c: "attendeesToString (attendeeIds e) = c # cs" "c \<noteq> CHR '',''"
    using attendeesToString_hd [OF assms(2)] by blast
  from assms(1) c show ?thesis
    by (simp add: plain_fields_def Event_fromString_def Event_toString_def stringstream_def
        getline_field comma_not_in_to_string stoi_to_string_range read_attendeesStr_def
        peek_def read_inventoryStr_def Event_parse_fields_def good_def case_prod_beta)
qed


lemma comma_not_in_inventoryToString: "CHR '','' \<notin> set (inventoryToString_from first m)"
  by (induction m arbitrary: first) (auto simp: comma_not_in_to_string split: if_splits)

lemma inventoryToString_not_empty: "m \<noteq> [] \<Longrightarrow> inventoryToString m \<noteq> []"
  using to_string_hd by (cases m) (auto simp: inventoryToString_def)

lemma Event_round_trip_drops_allocations:
  assumes "plain_fields e" "attendeeIds e = []" "allocatedInventory e \<noteq> []"
  shows "Event_fromString (Event_toString e) \<noteq> Inr (e, ds)"
proof -
  let ?inv = "inventoryToString_from True (allocatedInventory e)"
  have n: "?inv \<noteq> []"
    using inventoryToString_not_empty [OF assms(3)] by (simp add: inventoryToString_def)
  then obtain c cs where c: "?inv = c # cs" by (cases ?inv) auto
  have "c \<in> set ?inv" by (simp add: c)
  then have cc: "c \<noteq> CHR '',''" using comma_not_in_inventoryToString by metis
  have "CHR '','' \<notin> set (c # cs)"
    using comma_not_in_inventoryToString [of True "allocatedInventory e"] unfolding c .
  then have g: "getline CHR '','' \<lparr>buf = c # cs, eofbit = False, failbit = False\<rparr> []
             = (\<lparr>buf = [], eofbit = True, failbit = False\<rparr>, c # cs)"
    using getline_last_field [of "CHR '',''" "c # cs" "[]"] by simp
  from assms(1,2) c cc g
  have "\<And>ev. Event_fromString (Event_toString e) = Inr (ev, ds) \<Longrightarrow> allocatedInventory ev = []"
    by (auto simp: plain_fields_def Event_fromString_def Event_toString_def stringstream_def
        getline_field comma_not_in_to_string stoi_to_string_range read_attendeesStr_def
        peek_def read_inventoryStr_def Event_parse_fields_def inventoryToString_def good_def
        getline_empty_field split: sum.splits)
  with assms(3) show ?thesis by blast
qed

lemma Event_round_trip_iff:
  assumes "plain_fields e"
  shows "Event_fromString (Event_toString e) = Inr (e, [])
           \<longleftrightarrow> attendeeIds e = [] \<and> allocatedInventory e = []"
proof (cases "attendeeIds e = []")
  case True
  then show ?thesis
    using Event_round_trip_empty [OF assms] Event_round_trip_drops_allocations [OF assms]
    by blast
next
  case False
  from Event_round_trip_drops_attendees [OF assms False] show ?thesis
    using False by auto
qed

subsection \<open>An event with attendees and allocations\<close>

text \<open>
  C1 (round trip of every entity type, for an \<open>Event\<close> with any attendee list and any
  allocation map). The code does not do this for \<open>Event\<close>: the \<open>getline\<close> that reads
  the status also extracts the comma behind it, so the test \<open>ss.peek() == ','\<close> looks at
  the first character of the attendee field. For the event below, with attendees
  \<open>5, 6\<close> and allocations \<open>2 \<mapsto> 4\<close>, \<open>3 \<mapsto> 1\<close>, the line is
  \<open>1,Gala,2025-10-20,09:00,Hall,Dinner,Social,0,5;6,2:4;3:1\<close>; decoding it takes the
  attendee field for absent and reads \<open>5;6,2:4;3:1\<close> as the allocation field, which
  yields no attendee and the allocations \<open>3 \<mapsto> 1\<close>, \<open>6 \<mapsto> 4\<close>.
\<close>

theorem Event_round_trip_fails:
  "Event_fromString
     (Event_toString
        \<lparr>eventId = 1, e_name = ''Gala'', date = ''2025-10-20'', time = ''09:00'',
         location = ''Hall'', e_description = ''Dinner'', category = ''Social'',
         status = UPCOMING, attendeeIds = [5, 6], allocatedInventory = [(2, 4), (3, 1)]\<rparr>)
   = Inr (\<lparr>eventId = 1, e_name = ''Gala'', date = ''2025-10-20'', time = ''09:00'',
            location = ''Hall'', e_description = ''Dinner'', category = ''Social'',
            status = UPCOMING, attendeeIds = [], allocatedInventory = [(3, 1), (6, 4)]\<rparr>, [])"
  by (simp add: Event_eval stream_eval number_eval UPCOMING_def)


section \<open>Facts about the library models\<close>

lemma wrap_int_id: "in_int_range i \<Longrightarrow> wrap_int i = i"
  by (simp add: in_int_range_def INT_MIN_def INT_MAX_def wrap_int_def)

lemma wrap_int_range: "in_int_range (wrap_int i)"
  by (simp add: in_int_range_def INT_MIN_def INT_MAX_def wrap_int_def)

lemma wrap_int_add: "wrap_int (wrap_int a + b) = wrap_int (a + b)"
  by (simp add: wrap_int_def mod_simps ac_simps)

lemma stoi_range: "stoi str = Inr n \<Longrightarrow> in_int_range n"
  by (auto simp: stoi_def Let_def in_int_range_def split: if_splits)

lemma find_first_Some:
  "find_first P xs = Some i \<Longrightarrow> i < length xs \<and> P (xs ! i) \<and> (\<forall>j<i. \<not> P (xs ! j))"
proof (induction xs arbitrary: i)
  case Nil
  then show ?case by simp
next
  case (Cons x xs)
  show ?case
  proof (cases "P x")
    case True
    with Cons.prems show ?thesis by simp
  next
    case False
    with Cons.prems obtain k where k: "find_first P xs = Some k" "i = Suc k"
      by auto
    from Cons.IH [OF k(1)] False k(2) show ?thesis
      by (auto simp: nth_Cons split: nat.splits)
  qed
qed

lemma find_first_None: "find_first P xs = None \<longleftrightarrow> (\<forall>x\<in>set xs. \<not> P x)"
  by (induction xs) auto

lemma map_find_map_put:
  "map_find (map_put m k v) k' = (if k' = k then Some v else map_find m k')"
  by (induction m) (auto simp: map_find_def)

lemma map_find_map_erase:
  "map_find (map_erase m k) k' = (if k' = k then None else map_find m k')"
  by (induction m) (auto simp: map_find_def map_erase_def)

lemma entry_map_put: "entry (map_put m k v) k' = (if k' = k then v else entry m k')"
  by (simp add: entry_def map_find_map_put)

lemma entry_map_erase: "entry (map_erase m k) k' = (if k' = k then 0 else entry m k')"
  by (simp add: entry_def map_find_map_erase)

lemma findInventoryItemById_Some:
  "findInventoryItemById items k = Some i \<Longrightarrow> i < length items \<and> itemId (items ! i) = k"
  unfolding findInventoryItemById_def by (drule find_first_Some) simp

lemma findEventById_Some:
  "findEventById evs k = Some i \<Longrightarrow> i < length evs \<and> eventId (evs ! i) = k"
  unfolding findEventById_def by (drule find_first_Some) simp

lemma find_first_map: "find_first P (map f xs) = find_first (\<lambda>x. P (f x)) xs"
  by (induction xs) simp_all

lemma findInventoryItemById_ids:
  "map itemId xs = map itemId ys \<Longrightarrow> findInventoryItemById xs k = findInventoryItemById ys k"
proof -
  assume "map itemId xs = map itemId ys"
  then have "find_first (\<lambda>x. x = k) (map itemId xs) = find_first (\<lambda>x. x = k) (map itemId ys)"
    by simp
  then show ?thesis by (simp add: find_first_map findInventoryItemById_def)
qed

section \<open>Allocation and deallocation\<close>

text \<open>
  C4, as amended. For an event and an item that exist, allocating \<open>quantity\<close> units
  (choice 1 of \<open>trackInventoryAllocationToEvent\<close>) succeeds if and only if \<open>quantity\<close>
  is positive and at most \<open>totalQuantity - allocatedQuantity\<close> of the item as the
  program computes it, in 32-bit arithmetic. On success the item's \<open>allocatedQuantity\<close>
  and the event's entry for the item (\<open>0\<close> when absent) both grow by \<open>quantity\<close> in
  that arithmetic, and nothing else changes; on failure the state is unchanged and the
  reason is reported. Each of the three results is the exact difference or sum whenever
  that lies in the range of \<open>int\<close>.
\<close>

theorem allocation_succeeds_iff_available:
  assumes ev: "findEventById (events s) ident = Some ei"
    and it: "findInventoryItemById (inventory s) itmId = Some ii"
  shows
    "(let item = inventory s ! ii;
          event = events s ! ei;
          available = wrap_int (totalQuantity item - allocatedQuantity item);
          allocated = wrap_int (allocatedQuantity item + quantity);
          recorded = wrap_int (entry (allocatedInventory event) itmId + quantity);
          ok = (0 < quantity \<and> quantity \<le> available);
          r = trackInventoryAllocationToEvent ident 1 itmId quantity s
      in fst (allocate quantity item) = ok \<and>
         (in_int_range (totalQuantity item - allocatedQuantity item) \<longrightarrow>
            available = totalQuantity item - allocatedQuantity item) \<and>
         (in_int_range (allocatedQuantity item + quantity) \<longrightarrow>
            allocated = allocatedQuantity item + quantity) \<and>
         (in_int_range (entry (allocatedInventory event) itmId + quantity) \<longrightarrow>
            recorded = entry (allocatedInventory event) itmId + quantity) \<and>
         (if ok
          then r = (s\<lparr>inventory := (inventory s)[ii := item\<lparr>allocatedQuantity := allocated\<rparr>],
                       events := (events s)
                         [ei := event\<lparr>allocatedInventory :=
                                  map_put (allocatedInventory event) itmId recorded\<rparr>]\<rparr>,
                    [Allocated quantity (i_name item) (e_name event)]) \<and>
               allocatedQuantity (inventory (fst r) ! ii) = allocated \<and>
               entry (allocatedInventory (events (fst r) ! ei)) itmId = recorded
          else fst r = s \<and>
               snd r = (if quantity \<le> 0 then [AllocationMustBePositive]
                        else [NotEnoughAvailable (i_name item) available])))"
proof -
  from findEventById_Some [OF ev] have ei: "ei < length (events s)" by simp
  from findInventoryItemById_Some [OF it]
  have ii: "ii < length (inventory s)" and iid: "itemId (inventory s ! ii) = itmId" by simp_all
  show ?thesis
    using ei ii iid
    by (auto simp: Let_def trackInventoryAllocationToEvent_def ev it allocate_def
        getAvailableQuantity_def allocateInventoryItem_def entry_map_put wrap_int_id)
qed


text \<open>
  C5, as amended. For an event that records \<open>a > 0\<close> units of an item and a request
  to deallocate \<open>quantity > 0\<close> (choice 2 of \<open>trackInventoryAllocationToEvent\<close>), the
  event's entry loses exactly \<open>min quantity a\<close> units and is erased when nothing is
  left. The item's \<open>allocatedQuantity\<close> loses the same amount when it is at least that
  amount; otherwise \<open>InventoryItem::deallocate\<close> refuses and the item stays as it is.
\<close>

theorem deallocation_clamps:
  assumes ev: "findEventById (events s) ident = Some ei"
    and it: "findInventoryItemById (inventory s) itmId = Some ii"
    and a: "map_find (allocatedInventory (events s ! ei)) itmId = Some a"
    and pos: "0 < a" "0 < quantity"
  shows
    "(let item = inventory s ! ii;
          event = events s ! ei;
          d = min quantity a;
          r = trackInventoryAllocationToEvent ident 2 itmId quantity s
      in map_find (allocatedInventory (events (fst r) ! ei)) itmId
           = (if a \<le> quantity then None else Some (a - quantity)) \<and>
         entry (allocatedInventory (events (fst r) ! ei)) itmId = a - d \<and>
         allocatedQuantity (inventory (fst r) ! ii)
           = (if d \<le> allocatedQuantity item then allocatedQuantity item - d
              else allocatedQuantity item) \<and>
         fst r = s\<lparr>events := (events s)
                      [ei := event\<lparr>allocatedInventory :=
                               (if a \<le> quantity then map_erase (allocatedInventory event) itmId
                                else map_put (allocatedInventory event) itmId (a - quantity))\<rparr>],
                    inventory := (inventory s)
                      [ii := (if d \<le> allocatedQuantity item
                              then item\<lparr>allocatedQuantity := allocatedQuantity item - d\<rparr>
                              else item)]\<rparr> \<and>
         snd r = (if d \<le> allocatedQuantity item then [] 
                  else [CannotDeallocate d (i_name item) (allocatedQuantity item)])
                 @ [Deallocated d (i_name item) (e_name event)])"
proof -
  from findEventById_Some [OF ev] have ei: "ei < length (events s)" by simp
  from findInventoryItemById_Some [OF it]
  have ii: "ii < length (inventory s)" and iid: "itemId (inventory s ! ii) = itmId" by simp_all
  have dz: "deallocateInventoryItem itmId quantity (events s ! ei) =
      (min a quantity,
       (events s ! ei)\<lparr>allocatedInventory :=
          (if a \<le> quantity then map_erase (allocatedInventory (events s ! ei)) itmId
           else map_put (allocatedInventory (events s ! ei)) itmId (a - quantity))\<rparr>)"
    using pos a by (auto simp: deallocateInventoryItem_def Let_def min_def)
  show ?thesis
  proof (cases "a \<le> quantity")
    case True
    with pos ei ii iid show ?thesis
      by (simp add: Let_def trackInventoryAllocationToEvent_def ev it a dz deallocate_def
          min_def map_find_map_erase entry_map_erase)
  next
    case False
    with pos ei ii iid show ?thesis
      by (simp add: Let_def trackInventoryAllocationToEvent_def ev it a dz deallocate_def
          min_def map_find_map_put entry_map_put)
  qed
qed


section \<open>The quantity invariant\<close>

text \<open>
  An item is in order when \<open>0 \<le> allocatedQuantity \<le> totalQuantity\<close>; a state is
  consistent when every item of its inventory is. The quantities of a state of the
  program are \<open>int\<close>s, and so is the total quantity that the user enters at the
  prompt. The states reachable from \<open>s0\<close> are those that the operations which allocate,
  deallocate, set a total quantity and delete an event lead to, whatever the user
  enters.
\<close>

definition item_ok :: "InventoryItem \<Rightarrow> bool" where
  "item_ok i \<longleftrightarrow> 0 \<le> allocatedQuantity i \<and> allocatedQuantity i \<le> totalQuantity i"

definition consistent :: "System \<Rightarrow> bool" where
  "consistent s \<longleftrightarrow> list_all item_ok (inventory s)"

definition int_quantities :: "System \<Rightarrow> bool" where
  "int_quantities s \<longleftrightarrow>
     list_all (\<lambda>i. in_int_range (totalQuantity i) \<and> in_int_range (allocatedQuantity i))
       (inventory s)"

inductive reachable :: "System \<Rightarrow> System \<Rightarrow> bool" for s0 :: System where
  start: "reachable s0 s0"
| allocation:
    "reachable s0 s \<Longrightarrow>
     reachable s0 (fst (trackInventoryAllocationToEvent ident choice itmId quantity s))"
| set_total:
    "reachable s0 s \<Longrightarrow> in_int_range new_int_val \<Longrightarrow>
     reachable s0 (fst (updateInventoryItemDetails ident choice new_str_val new_int_val s))"
| deletion: "reachable s0 s \<Longrightarrow> reachable s0 (fst (deleteEvent ident s))"

text \<open>The invariant of the induction: the item is in order and its total is an \<open>int\<close>.\<close>

definition item_inv :: "InventoryItem \<Rightarrow> bool" where
  "item_inv i \<longleftrightarrow> item_ok i \<and> totalQuantity i \<le> INT_MAX"

lemma list_all_update: "list_all P xs \<Longrightarrow> P y \<Longrightarrow> list_all P (xs[i := y])"
  by (induction xs arbitrary: i) (auto split: nat.splits)

lemma item_inv_allocate: "item_inv i \<Longrightarrow> item_inv (fst (snd (allocate q i)))"
proof -
  assume inv: "item_inv i"
  then have "in_int_range (totalQuantity i - allocatedQuantity i)"
    by (simp add: item_inv_def item_ok_def in_int_range_def INT_MIN_def INT_MAX_def)
  then have av: "getAvailableQuantity i = totalQuantity i - allocatedQuantity i"
    by (simp add: getAvailableQuantity_def wrap_int_id)
  show ?thesis
  proof (cases "0 < q \<and> q \<le> totalQuantity i - allocatedQuantity i")
    case True
    with inv have "in_int_range (allocatedQuantity i + q)"
      by (simp add: item_inv_def item_ok_def in_int_range_def INT_MIN_def INT_MAX_def)
    then have "wrap_int (allocatedQuantity i + q) = allocatedQuantity i + q"
      by (rule wrap_int_id)
    with True inv show ?thesis
      by (simp add: allocate_def av item_inv_def item_ok_def)
  next
    case False
    with inv show ?thesis by (auto simp: allocate_def av)
  qed
qed

lemma item_inv_deallocate: "item_inv i \<Longrightarrow> item_inv (fst (snd (deallocate q i)))"
  by (auto simp: item_inv_def item_ok_def deallocate_def)

lemma item_inv_setTotalQuantity:
  "item_inv i \<Longrightarrow> in_int_range n \<Longrightarrow> item_inv (fst (setTotalQuantity n i))"
  by (auto simp: item_inv_def item_ok_def setTotalQuantity_def in_int_range_def)

lemma list_all_nth: "list_all P xs \<Longrightarrow> i < length xs \<Longrightarrow> P (xs ! i)"
  by (simp add: list_all_length)

lemma return_allocations_inv:
  "list_all item_inv items \<Longrightarrow> list_all item_inv (fst (return_allocations m items))"
proof (induction m arbitrary: items)
  case Nil
  then show ?case by simp
next
  case (Cons p m)
  obtain k v where p: "p = (k, v)" by (cases p)
  show ?case
  proof (cases "findInventoryItemById items k")
    case None
    with Cons p show ?thesis by simp
  next
    case (Some i)
    from findInventoryItemById_Some [OF Some] have "i < length items" by simp
    with Cons.prems have "item_inv (items ! i)" by (rule list_all_nth)
    then have "item_inv (fst (snd (deallocate v (items ! i))))" by (rule item_inv_deallocate)
    with Cons.prems have "list_all item_inv (items[i := fst (snd (deallocate v (items ! i)))])"
      by (rule list_all_update)
    from Cons.IH [OF this] p Some show ?thesis by simp
  qed
qed

lemma inv_track:
  assumes "list_all item_inv (inventory s)"
  shows "list_all item_inv
           (inventory (fst (trackInventoryAllocationToEvent ident choice itmId quantity s)))"
proof (cases "findEventById (events s) ident")
  case None
  with assms show ?thesis by (simp add: trackInventoryAllocationToEvent_def)
next
  case ev: (Some ei)
  show ?thesis
  proof (cases "findInventoryItemById (inventory s) itmId")
    case None
    with assms ev show ?thesis by (simp add: trackInventoryAllocationToEvent_def Let_def)
  next
    case (Some ii)
    from findInventoryItemById_Some [OF Some] have "ii < length (inventory s)" by simp
    with assms have ok: "item_inv (inventory s ! ii)" by (rule list_all_nth)
    have upd: "\<And>y. item_inv y \<Longrightarrow> list_all item_inv ((inventory s)[ii := y])"
      using assms by (rule list_all_update)
    have al: "list_all item_inv
        ((inventory s)[ii := fst (snd (allocate quantity (inventory s ! ii)))])"
      by (rule upd) (rule item_inv_allocate [OF ok])
    have de: "\<And>q. list_all item_inv
        ((inventory s)[ii := fst (snd (deallocate q (inventory s ! ii)))])"
      by (rule upd) (rule item_inv_deallocate [OF ok])
    show ?thesis
      using assms al de
      by (simp add: trackInventoryAllocationToEvent_def ev Some Let_def
          case_prod_beta split: option.splits)
  qed
qed

lemma inv_update:
  assumes "list_all item_inv (inventory s)" and n: "in_int_range new_int_val"
  shows "list_all item_inv
           (inventory (fst (updateInventoryItemDetails ident choice new_str_val new_int_val s)))"
proof (cases "findInventoryItemById (inventory s) ident")
  case None
  with assms show ?thesis by (simp add: updateInventoryItemDetails_def)
next
  case (Some i)
  from findInventoryItemById_Some [OF Some] have "i < length (inventory s)" by simp
  with assms(1) have ok: "item_inv (inventory s ! i)" by (rule list_all_nth)
  have upd: "\<And>y. item_inv y \<Longrightarrow> list_all item_inv ((inventory s)[i := y])"
    using assms(1) by (rule list_all_update)
  have st: "list_all item_inv
      ((inventory s)[i := fst (setTotalQuantity new_int_val (inventory s ! i))])"
    by (rule upd) (rule item_inv_setTotalQuantity [OF ok n])
  have nm: "list_all item_inv ((inventory s)[i := (inventory s ! i)\<lparr>i_name := new_str_val\<rparr>])"
    by (rule upd) (use ok in \<open>simp add: item_inv_def item_ok_def\<close>)
  have ds: "list_all item_inv
      ((inventory s)[i := (inventory s ! i)\<lparr>i_description := new_str_val\<rparr>])"
    by (rule upd) (use ok in \<open>simp add: item_inv_def item_ok_def\<close>)
  show ?thesis
    using assms(1) st nm ds
    by (simp add: updateInventoryItemDetails_def Some Let_def case_prod_beta)
qed

lemma inv_deleteEvent:
  assumes "list_all item_inv (inventory s)"
  shows "list_all item_inv (inventory (fst (deleteEvent ident s)))"
  using assms return_allocations_inv [of "inventory s"]
  by (simp add: deleteEvent_def Let_def case_prod_beta)

lemma reachable_inv:
  assumes "reachable s0 s" and "list_all item_inv (inventory s0)"
  shows "list_all item_inv (inventory s)"
  using assms
proof (induction rule: reachable.induct)
  case start
  then show ?case .
next
  case (allocation s ident choice itmId quantity)
  then show ?case by (simp add: inv_track)
next
  case (set_total s new_int_val ident choice new_str_val)
  then show ?case by (simp add: inv_update)
next
  case (deletion s ident)
  then show ?case by (simp add: inv_deleteEvent)
qed

lemma item_inv_start:
  "consistent s \<Longrightarrow> int_quantities s \<Longrightarrow> list_all item_inv (inventory s)"
  by (simp add: consistent_def int_quantities_def item_inv_def in_int_range_def list_all_iff)

text \<open>The quantities of a reachable state are \<open>int\<close>s again.\<close>

lemma reachable_int_quantities:
  assumes "consistent s0" and "int_quantities s0" and "reachable s0 s"
  shows "int_quantities s"
proof -
  from reachable_inv [OF assms(3) item_inv_start [OF assms(1,2)]]
  have "\<forall>i\<in>set (inventory s). 0 \<le> allocatedQuantity i \<and> allocatedQuantity i \<le> totalQuantity i
      \<and> totalQuantity i \<le> INT_MAX"
    by (simp add: item_inv_def item_ok_def list_all_iff)
  then show ?thesis
    by (auto simp: int_quantities_def in_int_range_def INT_MIN_def list_all_iff)
qed

text \<open>
  C3. In every state reachable from a consistent state by allocation, deallocation,
  \<open>setTotalQuantity\<close> and the deletion of events, every item has
  \<open>0 \<le> allocatedQuantity \<le> totalQuantity\<close>. The quantities of the first state, and
  the totals entered on the way, are \<open>int\<close>s, as all numbers of the program are; in
  such states no step of these operations leaves the range of \<open>int\<close>.
\<close>

theorem allocated_within_total:
  assumes "consistent s0" and "int_quantities s0" and "reachable s0 s"
  shows "\<forall>i\<in>set (inventory s). 0 \<le> allocatedQuantity i \<and> allocatedQuantity i \<le> totalQuantity i"
proof -
  from reachable_inv [OF assms(3) item_inv_start [OF assms(1,2)]]
  show ?thesis by (simp add: item_inv_def item_ok_def list_all_iff)
qed


section \<open>Example states\<close>

definition chairs :: InventoryItem where
  "chairs =
     \<lparr>itemId = 2, i_name = ''Chairs'', totalQuantity = 100, allocatedQuantity = 0,
      i_description = ''Standard chairs''\<rparr>"

definition example_event :: "int \<Rightarrow> string \<Rightarrow> Event" where
  "example_event k n =
     \<lparr>eventId = k, e_name = n, date = ''2025-10-20'', time = ''09:00'',
      location = ''Grand Hall'', e_description = ''Annual tech conference'',
      category = ''Conference'', status = UPCOMING, attendeeIds = [], allocatedInventory = []\<rparr>"

definition example_System :: System where
  "example_System =
     initial_System\<lparr>events := [example_event 1 ''E1'', example_event 2 ''E2''],
                    inventory := [chairs], nextEventId := 3, nextItemId := 3\<rparr>"

lemmas example_defs = example_System_def initial_System_def chairs_def example_event_def

lemmas lookup_eval = findEventById_def findInventoryItemById_def findAttendeeInMasterList_def

text \<open>
  C4 at the example: 30 of the 100 chairs go to event 1, and a request for 101 is
  refused and changes nothing.
\<close>

theorem allocation_succeeds_iff_available_witness:
  "findEventById (events example_System) 1 = Some 0 \<and>
   findInventoryItemById (inventory example_System) 2 = Some 0 \<and>
   allocatedQuantity (inventory (fst (trackInventoryAllocationToEvent 1 1 2 30 example_System)) ! 0)
     = 30 \<and>
   entry (allocatedInventory
            (events (fst (trackInventoryAllocationToEvent 1 1 2 30 example_System)) ! 0)) 2 = 30 \<and>
   trackInventoryAllocationToEvent 1 1 2 101 example_System
     = (example_System, [NotEnoughAvailable ''Chairs'' 100])"
proof -
  have e: "findEventById (events example_System) 1 = Some 0"
    by (simp add: example_defs lookup_eval)
  have i: "findInventoryItemById (inventory example_System) 2 = Some 0"
    by (simp add: example_defs lookup_eval)
  have a: "inventory example_System ! 0 = chairs" "events example_System ! 0 = example_event 1 ''E1''"
    by (simp_all add: example_defs)
  show ?thesis
    using e i allocation_succeeds_iff_available [OF e i, of 30]
      allocation_succeeds_iff_available [OF e i, of 101]
    by (simp add: Let_def example_defs entry_def map_find_def getAvailableQuantity_def
        prod_eq_iff wrap_int_def)
qed


text \<open>
  Event 1 holds 3 chairs; and a state that has drifted: event 1 records 5 chairs while
  the item counts only 2 as allocated.
\<close>

definition allocated_System :: System where
  "allocated_System =
     example_System\<lparr>events := [(example_event 1 ''E1'')\<lparr>allocatedInventory := [(2, 3)]\<rparr>,
                                 example_event 2 ''E2''],
                     inventory := [chairs\<lparr>allocatedQuantity := 3\<rparr>]\<rparr>"

definition drifted_System :: System where
  "drifted_System =
     example_System\<lparr>events := [(example_event 1 ''E1'')\<lparr>allocatedInventory := [(2, 5)]\<rparr>,
                                 example_event 2 ''E2''],
                     inventory := [chairs\<lparr>allocatedQuantity := 2\<rparr>]\<rparr>"

lemmas track_eval =
  trackInventoryAllocationToEvent_def allocate_def deallocate_def getAvailableQuantity_def
  allocateInventoryItem_def deallocateInventoryItem_def entry_def map_find_def map_erase_def
  wrap_int_def

text \<open>
  C5 at the example of the specification: 3 allocated, 10 requested; exactly 3 are
  removed, the entry is erased and the item's \<open>allocatedQuantity\<close> falls by 3.
\<close>

theorem deallocation_clamps_witness:
  "findEventById (events allocated_System) 1 = Some 0 \<and>
   findInventoryItemById (inventory allocated_System) 2 = Some 0 \<and>
   map_find (allocatedInventory (events allocated_System ! 0)) 2 = Some 3 \<and>
   map_find (allocatedInventory
               (events (fst (trackInventoryAllocationToEvent 1 2 2 10 allocated_System)) ! 0)) 2
     = None \<and>
   allocatedQuantity (inventory (fst (trackInventoryAllocationToEvent 1 2 2 10 allocated_System)) ! 0)
     = 0"
proof -
  have e: "findEventById (events allocated_System) 1 = Some 0"
    by (simp add: allocated_System_def example_defs lookup_eval)
  have i: "findInventoryItemById (inventory allocated_System) 2 = Some 0"
    by (simp add: allocated_System_def example_defs lookup_eval)
  have a: "map_find (allocatedInventory (events allocated_System ! 0)) 2 = Some 3"
    by (simp add: allocated_System_def example_defs map_find_def)
  have item: "allocatedQuantity (inventory allocated_System ! 0) = 3"
    by (simp add: allocated_System_def example_defs)
  have len: "length (events allocated_System) = 2" "length (inventory allocated_System) = 1"
    by (simp_all add: allocated_System_def example_defs)
  from deallocation_clamps [OF e i a, of 10] e i a show ?thesis
    by (simp add: Let_def item len map_find_map_erase)
qed

text \<open>
  C5 as stated fails in the drifted state: the event's entry of 5 is erased, but
  \<open>InventoryItem::deallocate\<close> refuses 5 because only 2 are allocated, and the item's
  \<open>allocatedQuantity\<close> stays 2.
\<close>

theorem deallocation_leaves_item_counterexample:
  "findEventById (events drifted_System) 1 = Some 0 \<and>
   findInventoryItemById (inventory drifted_System) 2 = Some 0 \<and>
   map_find (allocatedInventory (events drifted_System ! 0)) 2 = Some 5 \<and>
   allocatedQuantity (inventory drifted_System ! 0) = 2 \<and>
   map_find (allocatedInventory
               (events (fst (trackInventoryAllocationToEvent 1 2 2 5 drifted_System)) ! 0)) 2
     = None \<and>
   allocatedQuantity (inventory (fst (trackInventoryAllocationToEvent 1 2 2 5 drifted_System)) ! 0)
     = 2 \<and>
   allocatedQuantity (inventory (fst (trackInventoryAllocationToEvent 1 2 2 5 drifted_System)) ! 0)
     \<noteq> allocatedQuantity (inventory drifted_System ! 0) - min 5 5"
  by (simp add: drifted_System_def example_defs lookup_eval track_eval UPCOMING_def Let_def)

text \<open>C3 at the example, after 30 chairs were allocated to event 1.\<close>

theorem allocated_within_total_witness:
  "consistent example_System \<and> int_quantities example_System \<and>
   reachable example_System (fst (trackInventoryAllocationToEvent 1 1 2 30 example_System)) \<and>
   0 \<le> allocatedQuantity
         (hd (inventory (fst (trackInventoryAllocationToEvent 1 1 2 30 example_System)))) \<and>
   allocatedQuantity (hd (inventory (fst (trackInventoryAllocationToEvent 1 1 2 30 example_System))))
     \<le> totalQuantity
          (hd (inventory (fst (trackInventoryAllocationToEvent 1 1 2 30 example_System))))"
proof -
  have c: "consistent example_System"
    by (simp add: consistent_def item_ok_def example_defs)
  have q: "int_quantities example_System"
    by (simp add: int_quantities_def in_int_range_def INT_MIN_def INT_MAX_def example_defs)
  have r: "reachable example_System (fst (trackInventoryAllocationToEvent 1 1 2 30 example_System))"
    by (rule reachable.allocation) (rule reachable.start)
  have m: "hd (inventory (fst (trackInventoryAllocationToEvent 1 1 2 30 example_System)))
            \<in> set (inventory (fst (trackInventoryAllocationToEvent 1 1 2 30 example_System)))"
    by (simp add: example_defs lookup_eval track_eval Let_def)
  from allocated_within_total [OF c q r] m c q r show ?thesis by blast
qed


section \<open>Facts about \<open>remove_if\<close>\<close>

lemma remove_if_loop_length:
  "length (fst (remove_if_loop pred mv xs result first)) = length xs"
proof (induction pred mv xs result first rule: remove_if_loop.induct)
  case (1 pred mv xs result first)
  then show ?case by (subst remove_if_loop.simps) simp
qed

lemma remove_if_loop_end:
  "result < first \<Longrightarrow> first \<le> length xs \<Longrightarrow>
   snd (remove_if_loop pred mv xs result first)
     = result + length (filter (\<lambda>x. \<not> pred x) (drop first xs))"
proof (induction pred mv xs result first rule: remove_if_loop.induct)
  case (1 pred mv xs result first)
  show ?case
  proof (cases "first < length xs")
    case False
    with "1.prems" show ?thesis by (simp add: remove_if_loop.simps)
  next
    case lt: True
    have dr: "drop first xs = xs ! first # drop (Suc first) xs"
      using lt by (simp add: Cons_nth_drop_Suc)
    show ?thesis
    proof (cases "pred (xs ! first)")
      case True
      from "1.IH"(2) [OF lt] True lt "1.prems"
      have "snd (remove_if_loop pred mv xs result (Suc first))
            = result + length (filter (\<lambda>x. \<not> pred x) (drop (Suc first) xs))"
        by simp
      then show ?thesis using lt True dr by (subst remove_if_loop.simps) simp
    next
      case False
      let ?ys = "xs[result := xs ! first, first := mv (xs ! first)]"
      from "1.IH"(1) [OF lt False] lt "1.prems"
      have "snd (remove_if_loop pred mv ?ys (Suc result) (Suc first))
            = Suc result + length (filter (\<lambda>x. \<not> pred x) (drop (Suc first) ?ys))"
        by simp
      then show ?thesis using lt False dr "1.prems" by (subst remove_if_loop.simps) simp
    qed
  qed
qed

lemma remove_if_loop_filter:
  "result < first \<Longrightarrow> first \<le> length xs \<Longrightarrow>
   take (snd (remove_if_loop pred mv xs result first)) (fst (remove_if_loop pred mv xs result first))
     = take result xs @ filter (\<lambda>x. \<not> pred x) (drop first xs)"
proof (induction pred mv xs result first rule: remove_if_loop.induct)
  case (1 pred mv xs result first)
  show ?case
  proof (cases "first < length xs")
    case False
    with "1.prems" show ?thesis by (simp add: remove_if_loop.simps)
  next
    case lt: True
    have dr: "drop first xs = xs ! first # drop (Suc first) xs"
      using lt by (simp add: Cons_nth_drop_Suc)
    show ?thesis
    proof (cases "pred (xs ! first)")
      case True
      have step: "remove_if_loop pred mv xs result first
          = remove_if_loop pred mv xs result (Suc first)"
        using lt True by (subst remove_if_loop.simps) simp
      from "1.IH"(2) [OF lt] True "1.prems" lt
      have "take (snd (remove_if_loop pred mv xs result (Suc first)))
              (fst (remove_if_loop pred mv xs result (Suc first)))
            = take result xs @ filter (\<lambda>x. \<not> pred x) (drop (Suc first) xs)"
        by simp
      then show ?thesis unfolding step using True dr by simp
    next
      case False
      let ?ys = "xs[result := xs ! first, first := mv (xs ! first)]"
      have step: "remove_if_loop pred mv xs result first
          = remove_if_loop pred mv ?ys (Suc result) (Suc first)"
        using lt False by (subst remove_if_loop.simps) simp
      have tk: "take (Suc result) ?ys = take result xs @ [xs ! first]"
        using "1.prems" lt by (simp add: take_Suc_conv_app_nth)
      have dp: "drop (Suc first) ?ys = drop (Suc first) xs"
        using "1.prems" by simp
      from "1.IH"(1) [OF lt False] "1.prems" lt
      have "take (snd (remove_if_loop pred mv ?ys (Suc result) (Suc first)))
              (fst (remove_if_loop pred mv ?ys (Suc result) (Suc first)))
            = take (Suc result) ?ys @ filter (\<lambda>x. \<not> pred x) (drop (Suc first) ?ys)"
        by simp
      then show ?thesis unfolding step tk dp using dr False by simp
    qed
  qed
qed

lemma filter_before_first:
  "find_first P xs = Some i \<Longrightarrow>
   filter (\<lambda>x. \<not> P x) xs = take i xs @ filter (\<lambda>x. \<not> P x) (drop (Suc i) xs)"
proof (induction xs arbitrary: i)
  case Nil
  then show ?case by simp
next
  case (Cons x xs)
  show ?case
  proof (cases "P x")
    case True
    with Cons.prems show ?thesis by simp
  next
    case False
    with Cons.prems obtain k where k: "find_first P xs = Some k" "i = Suc k" by auto
    from Cons.IH [OF k(1)] False k(2) show ?thesis by simp
  qed
qed

lemma erase_remove_if_filter: "erase_remove_if pred mv xs = filter (\<lambda>x. \<not> pred x) xs"
proof (cases "find_first pred xs")
  case None
  then have "filter (\<lambda>x. \<not> pred x) xs = xs" by (simp add: find_first_None)
  with None show ?thesis by (simp add: erase_remove_if_def remove_if_def)
next
  case (Some i)
  from find_first_Some [OF Some] have "i < Suc i" "Suc i \<le> length xs" by simp_all
  from remove_if_loop_filter [OF this, of pred mv]
  have "erase_remove_if pred mv xs = take i xs @ filter (\<lambda>x. \<not> pred x) (drop (Suc i) xs)"
    by (simp add: erase_remove_if_def remove_if_def Some)
  with filter_before_first [OF Some] show ?thesis by simp
qed

lemma remove_if_length: "length (fst (remove_if pred mv xs)) = length xs"
  by (cases "find_first pred xs") (simp_all add: remove_if_def remove_if_loop_length)

lemma remove_if_end:
  "snd (remove_if pred mv xs) = length (filter (\<lambda>x. \<not> pred x) xs)"
proof (cases "find_first pred xs")
  case None
  then have "filter (\<lambda>x. \<not> pred x) xs = xs" by (simp add: find_first_None)
  with None show ?thesis by (simp add: remove_if_def)
next
  case (Some i)
  from find_first_Some [OF Some] have i: "i < length xs" by simp
  then have "snd (remove_if pred mv xs)
      = i + length (filter (\<lambda>x. \<not> pred x) (drop (Suc i) xs))"
    by (simp add: remove_if_def Some remove_if_loop_end)
  moreover have "length (filter (\<lambda>x. \<not> pred x) xs)
      = length (take i xs @ filter (\<lambda>x. \<not> pred x) (drop (Suc i) xs))"
    by (simp only: filter_before_first [OF Some, symmetric])
  ultimately show ?thesis using i by simp
qed

lemma filter_same_length: "length (filter P xs) = length xs \<Longrightarrow> \<forall>x\<in>set xs. P x"
proof (induction xs)
  case Nil
  show ?case by simp
next
  case (Cons a xs)
  have le: "length (filter P xs) \<le> length xs" by (rule length_filter_le)
  show ?case
  proof (cases "P a")
    case True
    with Cons.prems have "length (filter P xs) = length xs" by simp
    from Cons.IH [OF this] True show ?thesis by simp
  next
    case False
    with Cons.prems have "length (filter P xs) = Suc (length xs)" by simp
    with le show ?thesis by simp
  qed
qed

lemma remove_if_nothing_removed:
  "snd (remove_if pred mv xs) = length (fst (remove_if pred mv xs)) \<longleftrightarrow> (\<forall>x\<in>set xs. \<not> pred x)"
proof -
  have "length (filter (\<lambda>x. \<not> pred x) xs) = length xs \<longleftrightarrow> (\<forall>x\<in>set xs. \<not> pred x)"
  proof
    assume "length (filter (\<lambda>x. \<not> pred x) xs) = length xs"
    then show "\<forall>x\<in>set xs. \<not> pred x" by (rule filter_same_length)
  next
    assume "\<forall>x\<in>set xs. \<not> pred x"
    then show "length (filter (\<lambda>x. \<not> pred x) xs) = length xs" by simp
  qed
  then show ?thesis unfolding remove_if_end remove_if_length .
qed


section \<open>Deleting user accounts\<close>

text \<open>
  C10. \<open>deleteUserAccount\<close> with the username of the logged-in user is refused and
  leaves the whole state as it is. With any other username the user store keeps exactly
  the users with another name, in their order, and the matching objects are deleted.
  In both cases \<open>currentUser\<close> stays the same pointer and, when it pointed to a live
  object, still points to that object.
\<close>

theorem current_user_never_deleted:
  "(if (case currentUser_record s of None \<Rightarrow> False | Some u \<Rightarrow> username u = uname)
    then deleteUserAccount uname s = (s, [CannotDeleteCurrentUser])
    else users (fst (deleteUserAccount uname s))
           = filter (\<lambda>p. \<not> has_username s uname p) (users s) \<and>
         heap (fst (deleteUserAccount uname s))
           = (\<lambda>p. if p \<in> set (users s) \<and> has_username s uname p then None else heap s p) \<and>
         snd (deleteUserAccount uname s)
           = [if list_ex (has_username s uname) (users s) then UserDeleted uname
              else UserNotFound uname]) \<and>
   currentUser (fst (deleteUserAccount uname s)) = currentUser s \<and>
   (currentUser_record s \<noteq> None \<longrightarrow>
      currentUser_record (fst (deleteUserAccount uname s)) = currentUser_record s)"
proof (cases "case currentUser_record s of None \<Rightarrow> False | Some u \<Rightarrow> username u = uname")
  case True
  then show ?thesis by (simp add: deleteUserAccount_def)
next
  case False
  let ?P = "has_username s uname"
  have tk: "take (snd (remove_if ?P (\<lambda>p. p) (users s))) (fst (remove_if ?P (\<lambda>p. p) (users s)))
      = filter (\<lambda>p. \<not> ?P p) (users s)"
    using erase_remove_if_filter [of ?P "\<lambda>p. p" "users s"] by (simp add: erase_remove_if_def)
  show ?thesis
  proof (cases "\<forall>p\<in>set (users s). \<not> ?P p")
    case True
    then have un: "snd (remove_if ?P (\<lambda>p. p) (users s)) = length (fst (remove_if ?P (\<lambda>p. p) (users s)))"
      by (simp add: remove_if_nothing_removed)
    have h: "(\<lambda>p. if p \<in> set (users s) \<and> ?P p then None else heap s p) = heap s"
    proof
      fix p
      show "(if p \<in> set (users s) \<and> ?P p then None else heap s p) = heap s p"
        using True by auto
    qed
    from True have ex: "\<not> list_ex ?P (users s)" by (simp add: list_ex_iff)
    from True have f: "filter (\<lambda>p. \<not> ?P p) (users s) = users s" by simp
    show ?thesis using False un ex
      by (simp add: deleteUserAccount_def case_prod_beta h f)
  next
    case ex: False
    then have un: "snd (remove_if ?P (\<lambda>p. p) (users s)) \<noteq> length (fst (remove_if ?P (\<lambda>p. p) (users s)))"
      by (simp add: remove_if_nothing_removed)
    from ex have lx: "list_ex ?P (users s)" by (simp add: list_ex_iff)
    have rec: "currentUser_record s \<noteq> None \<longrightarrow>
        currentUser_record
          (s\<lparr>heap := \<lambda>p. if p \<in> set (users s) \<and> ?P p then None else heap s p,
             users := filter (\<lambda>p. \<not> ?P p) (users s)\<rparr>) = currentUser_record s"
      using False by (auto simp: currentUser_record_def has_username_def split: option.splits)
    show ?thesis using False un lx rec
      by (simp add: deleteUserAccount_def case_prod_beta tk)
  qed
qed

section \<open>Registration\<close>

text \<open>
  C9. A registration for an event whose status is \<open>CANCELED\<close> or \<open>COMPLETED\<close> returns
  the state unchanged (no attendee record is created or modified, the event's attendee
  list stays as it is) and reports the refusal: that only regular users register when
  nobody or an administrator is logged in, otherwise that the event is closed.
\<close>

theorem registration_rejected_for_closed_event:
  assumes "findEventById (events s) ident = Some ei"
    and "status (events s ! ei) = CANCELED \<or> status (events s ! ei) = COMPLETED"
  shows "registerAttendeeForEvent ident contact s
    = (s, [if (case currentUser_record s of None \<Rightarrow> True | Some cu \<Rightarrow> role cu = ADMIN)
           then OnlyRegularUsers else CannotRegister (status (events s ! ei))])"
  using assms
  by (auto simp: registerAttendeeForEvent_def Let_def split: option.splits)


section \<open>Check-in\<close>

text \<open>
  \<open>same_attendee a b\<close>: \<open>b\<close> is the record \<open>a\<close> with the same id, name and event, and it
  is checked in when \<open>a\<close> is. \<open>erased old new\<close>: the list \<open>new\<close> is the list \<open>old\<close> from
  which elements were erased, the others being untouched and in their order.
  \<open>no_reset old new\<close>: the store \<open>new\<close> is either the store \<open>old\<close> with some records
  erased, or the store \<open>old\<close> in which every record stayed in its place as the same
  attendee, followed by records that are not checked in. In neither case does a record
  go from checked in to not checked in.
\<close>

definition same_attendee :: "Attendee \<Rightarrow> Attendee \<Rightarrow> bool" where
  "same_attendee a b \<longleftrightarrow>
     attendeeId b = attendeeId a \<and> a_name b = a_name a \<and>
     eventIdRegisteredFor b = eventIdRegisteredFor a \<and> (isCheckedIn a \<longrightarrow> isCheckedIn b)"

fun erased :: "'a list \<Rightarrow> 'a list \<Rightarrow> bool" where
  "erased [] new = (new = [])"
| "erased (x # old) [] = True"
| "erased (x # old) (y # new) = (if x = y then erased old new else erased old (y # new))"

definition no_reset :: "Attendee list \<Rightarrow> Attendee list \<Rightarrow> bool" where
  "no_reset old new \<longleftrightarrow>
     erased old new \<or>
     (length old \<le> length new \<and>
      list_all2 same_attendee old (take (length old) new) \<and>
      list_all (\<lambda>b. \<not> isCheckedIn b) (drop (length old) new))"

lemma same_attendee_refl: "same_attendee a a"
  by (simp add: same_attendee_def)

lemma erased_tail: "erased old (y # new) \<Longrightarrow> erased old new"
proof (induction old arbitrary: y new)
  case Nil
  then show ?case by simp
next
  case (Cons x old)
  show ?case
  proof (cases new)
    case Nil
    then show ?thesis by simp
  next
    case (Cons z zs)
    show ?thesis
    proof (cases "x = y")
      case True
      with Cons.prems have "erased old (z # zs)" by (simp add: Cons)
      then have "erased old zs" by (rule Cons.IH)
      with \<open>erased old (z # zs)\<close> show ?thesis by (simp add: Cons)
    next
      case False
      with Cons.prems have e: "erased old (y # z # zs)" by (simp add: Cons)
      then have "erased old (z # zs)" by (rule Cons.IH)
      moreover from this have "erased old zs" by (rule Cons.IH)
      ultimately show ?thesis by (simp add: Cons)
    qed
  qed
qed

lemma erased_filter: "erased xs (filter P xs)"
proof (induction xs)
  case Nil
  show ?case by simp
next
  case (Cons x xs)
  show ?case
  proof (cases "P x")
    case True
    with Cons show ?thesis by simp
  next
    case False
    show ?thesis
    proof (cases "filter P xs")
      case Nil
      with False show ?thesis by simp
    next
      case c: (Cons y ys)
      from Cons.IH have "erased xs ys" unfolding c by (rule erased_tail)
      with Cons.IH False c show ?thesis by simp
    qed
  qed
qed

text \<open>What is left after erasing are records of the old store.\<close>

lemma erased_subset: "erased old new \<Longrightarrow> set new \<subseteq> set old"
proof (induction old new rule: erased.induct)
  case (1 new)
  then show ?case by simp
next
  case (2 x old)
  show ?case by simp
next
  case (3 x old y new)
  then show ?case by (auto split: if_splits)
qed

text \<open>
  So a record of the new store that is not checked in was already there and not checked
  in, or stands behind the places of the old store.
\<close>

lemma no_reset_unchecked:
  assumes "no_reset old new" and j: "j < length new" and u: "\<not> isCheckedIn (new ! j)"
  shows "(\<exists>a\<in>set old. same_attendee a (new ! j) \<and> \<not> isCheckedIn a) \<or> length old \<le> j"
proof (cases "erased old new")
  case True
  from erased_subset [OF True] j have "new ! j \<in> set old" by auto
  with u show ?thesis by (auto simp: same_attendee_def)
next
  case False
  with assms(1) have g: "list_all2 same_attendee old (take (length old) new)"
    and l: "length old \<le> length new"
    by (simp_all add: no_reset_def)
  show ?thesis
  proof (cases "j < length old")
    case True
    with g l have "same_attendee (old ! j) (new ! j)"
      by (auto simp: list_all2_conv_all_nth)
    moreover from this u have "\<not> isCheckedIn (old ! j)" by (auto simp: same_attendee_def)
    ultimately show ?thesis using True by auto
  next
    case False
    then show ?thesis by simp
  qed
qed

lemma no_reset_excludes_reset:
  "isCheckedIn a \<Longrightarrow> \<not> no_reset [a] [a\<lparr>isCheckedIn := False\<rparr>]"
  by (cases a) (auto simp: no_reset_def same_attendee_def)

lemma no_reset_grown:
  "list_all2 same_attendee xs ys \<Longrightarrow> list_all (\<lambda>b. \<not> isCheckedIn b) new \<Longrightarrow>
   no_reset xs (ys @ new)"
proof -
  assume a: "list_all2 same_attendee xs ys" and n: "list_all (\<lambda>b. \<not> isCheckedIn b) new"
  from a have "length xs = length ys" by (rule list_all2_lengthD)
  with a n show ?thesis by (simp add: no_reset_def)
qed

lemma no_reset_all2: "list_all2 same_attendee xs ys \<Longrightarrow> no_reset xs ys"
  using no_reset_grown [of xs ys "[]"] by simp

lemma no_reset_refl: "no_reset xs xs"
  by (rule no_reset_all2) (simp add: list_all2_same same_attendee_refl)

lemma no_reset_filter: "no_reset xs (filter P xs)"
  by (simp add: no_reset_def erased_filter)

lemma no_reset_append:
  "list_all (\<lambda>b. \<not> isCheckedIn b) new \<Longrightarrow> no_reset xs (xs @ new)"
  by (rule no_reset_grown) (simp_all add: list_all2_same same_attendee_refl)

lemma no_reset_update:
  "i < length xs \<Longrightarrow> same_attendee (xs ! i) y \<Longrightarrow> no_reset xs (xs[i := y])"
  by (rule no_reset_all2)
     (auto simp: list_all2_conv_all_nth nth_list_update same_attendee_refl)

lemma update_contacts_all2:
  "list_all2 same_attendee atts (fst (update_contacts uname newContact atts))"
  by (induction atts)
     (auto simp: same_attendee_def case_prod_beta list_all2_same)

lemma findAttendeeInMasterList_Some:
  "findAttendeeInMasterList atts k = Some i \<Longrightarrow> i < length atts \<and> attendeeId (atts ! i) = k"
  unfolding findAttendeeInMasterList_def by (drule find_first_Some) simp

lemma no_reset_checkIn:
  "no_reset (allAttendees s) (allAttendees (fst (checkInAttendeeForEvent ident attId s)))"
proof (cases "findAttendeeInMasterList (allAttendees s) attId")
  case None
  then show ?thesis
    by (simp add: checkInAttendeeForEvent_def no_reset_refl split: option.splits)
next
  case (Some ai)
  from findAttendeeInMasterList_Some [OF Some] have ai: "ai < length (allAttendees s)" by simp
  have "same_attendee (allAttendees s ! ai) (fst (checkIn (allAttendees s ! ai)))"
    by (simp add: checkIn_def same_attendee_def)
  with ai have "no_reset (allAttendees s)
      ((allAttendees s)[ai := fst (checkIn (allAttendees s ! ai))])"
    by (rule no_reset_update)
  then show ?thesis
    by (simp add: checkInAttendeeForEvent_def Some no_reset_refl case_prod_beta
        split: option.splits)
qed

lemma no_reset_register:
  "no_reset (allAttendees s) (allAttendees (fst (registerAttendeeForEvent ident contact s)))"
proof -
  have upd: "\<And>ai. ai < length (allAttendees s) \<Longrightarrow>
      no_reset (allAttendees s)
        ((allAttendees s)[ai := (allAttendees s ! ai)\<lparr>contactInfo := contact\<rparr>])"
    by (rule no_reset_update) (simp_all add: same_attendee_def)
  have new: "\<And>a. \<not> isCheckedIn a \<Longrightarrow> no_reset (allAttendees s) (allAttendees s @ [a])"
    by (rule no_reset_append) simp
  show ?thesis
    by (auto simp: registerAttendeeForEvent_def Let_def case_prod_beta no_reset_refl
        intro!: upd new dest: find_first_Some split: option.splits)
qed

lemma no_reset_cancel:
  "no_reset (allAttendees s) (allAttendees (fst (cancelOwnRegistration ident s)))"
  by (auto simp: cancelOwnRegistration_def Let_def no_reset_refl erase_remove_if_filter
      no_reset_filter split: option.splits)

lemma no_reset_updateContact:
  "no_reset (allAttendees s)
     (allAttendees (fst (updateCurrentLoggedInUserContactInfo newContact s)))"
proof -
  have a: "\<And>u. no_reset (allAttendees s) (fst (update_contacts u newContact (allAttendees s)))"
    by (rule no_reset_all2) (rule update_contacts_all2)
  have b: "\<And>u n. \<not> isCheckedIn n \<Longrightarrow>
      no_reset (allAttendees s) (fst (update_contacts u newContact (allAttendees s)) @ [n])"
    by (rule no_reset_grown [OF update_contacts_all2]) simp
  show ?thesis
    by (auto simp: updateCurrentLoggedInUserContactInfo_def Let_def case_prod_beta
        no_reset_refl a b split: option.splits)
qed

lemma no_reset_deleteEvent:
  "no_reset (allAttendees s) (allAttendees (fst (deleteEvent ident s)))"
  by (simp add: deleteEvent_def Let_def case_prod_beta no_reset_refl erase_remove_if_filter
      no_reset_filter)

lemma attendees_untouched:
  "allAttendees (fst (createUserAccount uname pwd r s)) = allAttendees s"
  "allAttendees (fst (deleteUserAccount uname s)) = allAttendees s"
  "allAttendees (fst (login uname pwd s)) = allAttendees s"
  "allAttendees (fst (logout s)) = allAttendees s"
  "allAttendees (fst (createEvent n d t loc desc cat s)) = allAttendees s"
  "allAttendees (fst (editEventDetails ident choice new_val s)) = allAttendees s"
  "allAttendees (fst (updateEventStatus ident choice s)) = allAttendees s"
  "allAttendees (fst (addInventoryItem n quantity desc s)) = allAttendees s"
  "allAttendees (fst (updateInventoryItemDetails ident choice new_str_val new_int_val s))
     = allAttendees s"
  "allAttendees (fst (trackInventoryAllocationToEvent ident choice itmId quantity s))
     = allAttendees s"
  by (simp_all add: createUserAccount_def push_user_def deleteUserAccount_def login_def
      logout_def createEvent_def editEventDetails_def updateEventStatus_def
      addInventoryItem_def updateInventoryItemDetails_def trackInventoryAllocationToEvent_def
      Let_def case_prod_beta split: option.splits)

text \<open>
  C8. No operation resets a check-in: for every operation that a menu can start, the
  attendee store after it is the store before it with some records erased and the
  others untouched, or the store before it with every record in its place as the same
  attendee (never going from checked in to not checked in), followed by new records
  that are not checked in. Checking in an attendee that is already checked in changes nothing and reports
  that the attendee is already checked in, for \<open>Attendee::checkIn\<close> and for
  \<open>checkInAttendeeForEvent\<close>.
\<close>

theorem check_in_monotone_and_idempotent:
  "no_reset (allAttendees s) (allAttendees (fst (run operation s))) \<and>
   (isCheckedIn a \<longrightarrow>
      checkIn a = (a, [AlreadyCheckedIn (a_name a) (eventIdRegisteredFor a)])) \<and>
   (findEventById (events s) ident = Some ei \<and>
    findAttendeeInMasterList (allAttendees s) attId = Some ai \<and>
    eventIdRegisteredFor (allAttendees s ! ai) = ident \<and> isCheckedIn (allAttendees s ! ai) \<longrightarrow>
      checkInAttendeeForEvent ident attId s
        = (s, [AlreadyCheckedIn (a_name (allAttendees s ! ai)) ident]))"
proof -
  have "no_reset (allAttendees s) (allAttendees (fst (run operation s)))"
    by (cases operation)
       (simp_all add: attendees_untouched no_reset_refl no_reset_checkIn no_reset_register
          no_reset_cancel no_reset_updateContact no_reset_deleteEvent)
  moreover have "isCheckedIn a \<longrightarrow>
      checkIn a = (a, [AlreadyCheckedIn (a_name a) (eventIdRegisteredFor a)])"
    by (simp add: checkIn_def)
  moreover have "findEventById (events s) ident = Some ei \<and>
    findAttendeeInMasterList (allAttendees s) attId = Some ai \<and>
    eventIdRegisteredFor (allAttendees s ! ai) = ident \<and> isCheckedIn (allAttendees s ! ai) \<longrightarrow>
      checkInAttendeeForEvent ident attId s
        = (s, [AlreadyCheckedIn (a_name (allAttendees s ! ai)) ident])"
    by (auto simp: checkInAttendeeForEvent_def checkIn_def)
  ultimately show ?thesis by blast
qed


section \<open>A session\<close>

text \<open>
  The regular user \<open>user1\<close> is logged in; event 1 is canceled; \<open>user1\<close> is registered
  for event 2 as attendee 7 and checked in.
\<close>

definition user1 :: User where
  "user1 = \<lparr>userId = 2, username = ''user1'', password = ''user1pass'', role = REGULAR_USER\<rparr>"

definition admin :: User where
  "admin = \<lparr>userId = 1, username = ''admin'', password = ''adminpass'', role = ADMIN\<rparr>"

definition session_System :: System where
  "session_System =
     initial_System
       \<lparr>heap := (\<lambda>p. if p = 0 then Some admin else if p = 1 then Some user1 else None),
        nextAddr := 2, users := [0, 1],
        events := [(example_event 1 ''E1'')\<lparr>status := CANCELED\<rparr>, example_event 2 ''E2''],
        allAttendees :=
          [\<lparr>attendeeId = 7, a_name = ''user1'', contactInfo = ''u1@example.org'',
            eventIdRegisteredFor = 2, isCheckedIn = True\<rparr>],
        currentUser := Some 1, nextUserId := 3, nextEventId := 3, nextAttendeeId := 8\<rparr>"

lemmas session_defs =
  session_System_def initial_System_def example_event_def user1_def admin_def

text \<open>C9 in the session: \<open>user1\<close> cannot register for the canceled event 1.\<close>

theorem registration_rejected_for_closed_event_witness:
  "findEventById (events session_System) 1 = Some 0 \<and>
   status (events session_System ! 0) = CANCELED \<and>
   registerAttendeeForEvent 1 ''u1@example.org'' session_System
     = (session_System, [CannotRegister CANCELED])"
proof -
  have e: "findEventById (events session_System) 1 = Some 0"
    by (simp add: session_defs lookup_eval)
  have st: "status (events session_System ! 0) = CANCELED"
    by (simp add: session_defs)
  have cu: "currentUser_record session_System = Some user1"
    by (simp add: session_defs currentUser_record_def)
  from registration_rejected_for_closed_event [OF e, of "''u1@example.org''"] e st cu
  show ?thesis by (simp add: user1_def)
qed

text \<open>
  C10 in the session: deleting \<open>user1\<close> is refused; deleting \<open>admin\<close> removes that
  account and leaves the session's user alive.
\<close>

theorem current_user_never_deleted_witness:
  "deleteUserAccount ''user1'' session_System = (session_System, [CannotDeleteCurrentUser]) \<and>
   users (fst (deleteUserAccount ''admin'' session_System)) = [1] \<and>
   heap (fst (deleteUserAccount ''admin'' session_System)) 0 = None \<and>
   snd (deleteUserAccount ''admin'' session_System) = [UserDeleted ''admin''] \<and>
   currentUser_record (fst (deleteUserAccount ''admin'' session_System)) = Some user1"
proof -
  have cu: "currentUser_record session_System = Some user1"
    by (simp add: session_defs currentUser_record_def)
  have us: "users session_System = [0, 1]"
    by (simp add: session_defs)
  have hu: "has_username session_System ''admin'' 0"
    "\<not> has_username session_System ''admin'' (Suc 0)"
    by (simp_all add: session_defs has_username_def)
  from current_user_never_deleted [where s = session_System and uname = "''user1''"]
    current_user_never_deleted [where s = session_System and uname = "''admin''"]
  show ?thesis by (simp add: cu us hu user1_def)
qed

text \<open>C8 in the session: attendee 7 is checked in again for event 2.\<close>

theorem check_in_monotone_and_idempotent_witness:
  "isCheckedIn (allAttendees session_System ! 0) \<and>
   no_reset (allAttendees session_System)
     (allAttendees (fst (run (CheckInAttendeeForEvent 2 7) session_System))) \<and>
   checkInAttendeeForEvent 2 7 session_System
     = (session_System, [AlreadyCheckedIn ''user1'' 2])"
proof -
  have e: "findEventById (events session_System) 2 = Some 1"
    by (simp add: session_defs lookup_eval)
  have a: "findAttendeeInMasterList (allAttendees session_System) 7 = Some 0"
    by (simp add: session_defs lookup_eval)
  have r: "eventIdRegisteredFor (allAttendees session_System ! 0) = 2"
    "isCheckedIn (allAttendees session_System ! 0)"
    "a_name (allAttendees session_System ! 0) = ''user1''"
    by (simp_all add: session_defs)
  from check_in_monotone_and_idempotent
    [where s = session_System and operation = "CheckInAttendeeForEvent 2 7"
       and a = "allAttendees session_System ! 0" and ident = 2 and ei = 1 and attId = 7
       and ai = 0]
    e a r
  show ?thesis by (simp add: no_reset_refl)
qed


section \<open>Deleting an event\<close>

subsection \<open>The stores after the deletion\<close>

text \<open>
  When exactly one element satisfies the predicate, \<open>remove_if\<close> returns the position
  of the last element, and that element is what is left there: a moved-from element
  when the removed one stood further to the front, and the removed element itself when
  it was the last.
\<close>

lemma remove_if_loop_tail:
  "result < first \<Longrightarrow> first \<le> length xs \<Longrightarrow> \<forall>x\<in>set (drop first xs). \<not> pred x \<Longrightarrow>
   fst (remove_if_loop pred mv xs result first) ! (result + (length xs - first))
     = (if first \<le> result + (length xs - first)
        then mv (xs ! (result + (length xs - first)))
        else xs ! (result + (length xs - first)))"
proof (induction pred mv xs result first rule: remove_if_loop.induct)
  case (1 pred mv xs result first)
  show ?case
  proof (cases "first < length xs")
    case False
    with "1.prems" show ?thesis by (simp add: remove_if_loop.simps)
  next
    case lt: True
    have dr: "drop first xs = xs ! first # drop (Suc first) xs"
      using lt by (simp add: Cons_nth_drop_Suc)
    with "1.prems"(3) have keep: "\<not> pred (xs ! first)"
      and rest: "\<forall>x\<in>set (drop (Suc first) xs). \<not> pred x" by simp_all
    let ?ys = "xs[result := xs ! first, first := mv (xs ! first)]"
    let ?n = "result + (length xs - first)"
    have step: "remove_if_loop pred mv xs result first
        = remove_if_loop pred mv ?ys (Suc result) (Suc first)"
      using lt keep by (subst remove_if_loop.simps) simp
    have dp: "drop (Suc first) ?ys = drop (Suc first) xs"
      using "1.prems" by simp
    have n: "Suc result + (length ?ys - Suc first) = ?n" using lt by simp
    from "1.IH"(1) [OF lt keep] "1.prems" lt rest
    have ih: "fst (remove_if_loop pred mv ?ys (Suc result) (Suc first)) ! ?n
        = (if Suc first \<le> ?n then mv (?ys ! ?n) else ?ys ! ?n)"
      by (simp add: dp n del: length_list_update)
         (use n in \<open>simp add: dp\<close>)
    have gt: "result < ?n" using lt by simp
    show ?thesis
    proof (cases "Suc first \<le> ?n")
      case True
      then have "?ys ! ?n = xs ! ?n" using gt by simp
      with ih True step show ?thesis by simp
    next
      case False
      show ?thesis
      proof (cases "?n = first")
        case True
        with lt have "?ys ! ?n = mv (xs ! first)" by simp
        with ih False True step show ?thesis by simp
      next
        case ne: False
        with False have "?n < first" by simp
        moreover from gt ne have "?ys ! ?n = xs ! ?n" by simp
        ultimately show ?thesis using ih False step by simp
      qed
    qed
  qed
qed


lemma remove_if_single:
  assumes f: "find_first pred xs = Some i"
    and u: "\<forall>x\<in>set (drop (Suc i) xs). \<not> pred x"
  shows "snd (remove_if pred mv xs) = length xs - 1"
    and "fst (remove_if pred mv xs) ! (length xs - 1)
          = (if Suc i < length xs then mv (xs ! (length xs - 1)) else xs ! i)"
proof -
  from find_first_Some [OF f] have i: "i < length xs" by simp
  from u have "filter (\<lambda>x. \<not> pred x) (drop (Suc i) xs) = drop (Suc i) xs" by simp
  with i show "snd (remove_if pred mv xs) = length xs - 1"
    by (simp add: remove_if_def f remove_if_loop_end)
  have n: "i + (length xs - Suc i) = length xs - 1" using i by simp
  from i have "i < Suc i" "Suc i \<le> length xs" by simp_all
  from remove_if_loop_tail [OF this u, of mv] n i
  show "fst (remove_if pred mv xs) ! (length xs - 1)
      = (if Suc i < length xs then mv (xs ! (length xs - 1)) else xs ! i)"
    by (auto simp: remove_if_def f)
qed

text \<open>
  What \<open>deleteEvent\<close> does to the other two stores, whatever the position of the event:
  the events with the id and the attendees registered for it are erased.
\<close>

lemma deleteEvent_erases:
  "events (fst (deleteEvent ident s)) = filter (\<lambda>e. eventId e \<noteq> ident) (events s)"
  "allAttendees (fst (deleteEvent ident s))
     = (if list_ex (\<lambda>e. eventId e = ident) (events s)
        then filter (\<lambda>att. eventIdRegisteredFor att \<noteq> ident) (allAttendees s)
        else allAttendees s)"
proof -
  let ?P = "\<lambda>e. eventId e = ident"
  have tk: "take (snd (remove_if ?P moved_Event (events s)))
              (fst (remove_if ?P moved_Event (events s)))
            = filter (\<lambda>e. eventId e \<noteq> ident) (events s)"
    using erase_remove_if_filter [of ?P moved_Event "events s"]
    by (simp add: erase_remove_if_def)
  have none_removed: "snd (remove_if ?P moved_Event (events s))
        = length (fst (remove_if ?P moved_Event (events s)))
      \<longleftrightarrow> \<not> list_ex ?P (events s)"
    by (simp add: remove_if_nothing_removed list_ex_iff)
  show "events (fst (deleteEvent ident s)) = filter (\<lambda>e. eventId e \<noteq> ident) (events s)"
  proof (cases "list_ex ?P (events s)")
    case True
    with none_removed have "snd (remove_if ?P moved_Event (events s))
        \<noteq> length (fst (remove_if ?P moved_Event (events s)))" by simp
    then show ?thesis by (simp add: deleteEvent_def case_prod_beta tk)
  next
    case False
    then have "filter (\<lambda>e. eventId e \<noteq> ident) (events s) = events s"
      by (simp add: list_ex_iff)
    with False none_removed show ?thesis by (simp add: deleteEvent_def case_prod_beta)
  qed
  show "allAttendees (fst (deleteEvent ident s))
     = (if list_ex ?P (events s)
        then filter (\<lambda>att. eventIdRegisteredFor att \<noteq> ident) (allAttendees s)
        else allAttendees s)"
    using none_removed
    by (simp add: deleteEvent_def case_prod_beta erase_remove_if_filter)
qed

text \<open>
  What \<open>deleteEvent\<close> does to the inventory when exactly one event has the id: when that
  event is the last of the store, its allocations go through \<open>deallocate\<close>; when another
  event stands behind it, the inventory is left as it is.
\<close>

lemma deleteEvent_inventory:
  assumes f: "findEventById (events s) ident = Some i"
    and u: "\<forall>e\<in>set (drop (Suc i) (events s)). eventId e \<noteq> ident"
  shows "inventory (fst (deleteEvent ident s))
    = (if Suc i < length (events s) then inventory s
       else fst (return_allocations (allocatedInventory (events s ! i)) (inventory s)))"
proof -
  let ?P = "\<lambda>e. eventId e = ident"
  from f have ff: "find_first ?P (events s) = Some i" by (simp add: findEventById_def)
  from find_first_Some [OF ff] have i: "i < length (events s)" by simp
  from u have uu: "\<forall>x\<in>set (drop (Suc i) (events s)). \<not> ?P x" by simp
  have e: "snd (remove_if ?P moved_Event (events s)) = length (events s) - Suc 0"
    using remove_if_single(1) [OF ff uu, of moved_Event] by simp
  have h: "fst (remove_if ?P moved_Event (events s)) ! (length (events s) - Suc 0)
      = (if Suc i < length (events s) then moved_Event (events s ! (length (events s) - Suc 0))
         else events s ! i)"
    using remove_if_single(2) [OF ff uu, of moved_Event] by simp
  from i have ne: "length (events s) - Suc 0 \<noteq> length (events s)" by simp
  show ?thesis
    using ne by (simp add: deleteEvent_def case_prod_beta e h remove_if_length moved_Event_def)
qed


text \<open>
  The loop that returns allocations, for a map whose quantities are positive and
  covered by the items: the first item with an id loses what the map records for the
  id, and every other item keeps its quantity.
\<close>

definition covered :: "int_map \<Rightarrow> InventoryItem list \<Rightarrow> bool" where
  "covered m items \<longleftrightarrow>
     list_all (\<lambda>p. case findInventoryItemById items (fst p) of
                     None \<Rightarrow> True
                   | Some i \<Rightarrow> 0 < snd p \<and> snd p \<le> allocatedQuantity (items ! i)) m"

lemma return_allocations_quantity:
  "distinct (map fst m) \<Longrightarrow> covered m items \<Longrightarrow> j < length items \<Longrightarrow>
   allocatedQuantity (fst (return_allocations m items) ! j)
     = allocatedQuantity (items ! j)
       - (if findInventoryItemById items (itemId (items ! j)) = Some j
          then entry m (itemId (items ! j)) else 0)"
proof (induction m arbitrary: items)
  case Nil
  show ?case by (simp add: entry_def map_find_def)
next
  case (Cons p m)
  obtain k v where p: "p = (k, v)" by (cases p)
  from Cons.prems(1) p have dist: "distinct (map fst m)" and fresh: "k \<notin> fst ` set m"
    by simp_all
  from Cons.prems(2) have cov: "covered m items" by (simp add: covered_def)
  show ?case
  proof (cases "findInventoryItemById items k")
    case None
    then have "\<forall>x\<in>set items. itemId x \<noteq> k"
      by (simp add: findInventoryItemById_def find_first_None)
    with Cons.prems(3) have "itemId (items ! j) \<noteq> k" by simp
    with Cons.IH [OF dist cov Cons.prems(3)] p None show ?thesis
      by (simp add: entry_def map_find_def)
  next
    case (Some i)
    from findInventoryItemById_Some [OF Some]
    have i: "i < length items" "itemId (items ! i) = k" by simp_all
    from Cons.prems(2) p Some have v: "0 < v" "v \<le> allocatedQuantity (items ! i)"
      by (simp_all add: covered_def)
    let ?item = "(items ! i)\<lparr>allocatedQuantity := allocatedQuantity (items ! i) - v\<rparr>"
    let ?items = "items[i := ?item]"
    have de: "fst (snd (deallocate v (items ! i))) = ?item"
      using v by (simp add: deallocate_def)
    have ids: "map itemId ?items = map itemId items"
      using i by (simp add: map_update list_update_same_conv)
    have fnd: "\<And>key. findInventoryItemById ?items key = findInventoryItemById items key"
      by (rule findInventoryItemById_ids [OF ids])
    have cov': "covered m ?items"
      unfolding covered_def list_all_iff
    proof
      fix q assume q: "q \<in> set m"
      with fresh have qk: "fst q \<noteq> k" by auto
      from cov q have c: "case findInventoryItemById items (fst q) of
          None \<Rightarrow> True | Some i' \<Rightarrow> 0 < snd q \<and> snd q \<le> allocatedQuantity (items ! i')"
        by (simp add: covered_def list_all_iff)
      show "case findInventoryItemById ?items (fst q) of
          None \<Rightarrow> True | Some i' \<Rightarrow> 0 < snd q \<and> snd q \<le> allocatedQuantity (?items ! i')"
      proof (cases "findInventoryItemById items (fst q)")
        case None
        then show ?thesis by (simp add: fnd)
      next
        case (Some i')
        from findInventoryItemById_Some [OF Some] qk i have "i' \<noteq> i" by auto
        with c Some show ?thesis by (simp add: fnd)
      qed
    qed
    have idj: "itemId (?items ! j) = itemId (items ! j)"
      using Cons.prems(3) i by (cases "j = i") simp_all
    from Cons.prems(3) have "j < length ?items" by simp
    from Cons.IH [OF dist cov' this]
    have ih: "allocatedQuantity (fst (return_allocations m ?items) ! j)
        = allocatedQuantity (?items ! j)
          - (if findInventoryItemById items (itemId (items ! j)) = Some j
             then entry m (itemId (items ! j)) else 0)"
      by (simp only: idj fnd)
    from fresh have "map_of m k = None" by (simp add: map_of_eq_None_iff)
    then have em: "entry m k = 0" by (simp add: entry_def map_find_def)
    show ?thesis
    proof (cases "j = i")
      case True
      with ih i Some p de em show ?thesis by (simp add: entry_def map_find_def)
    next
      case False
      have "\<not> (findInventoryItemById items (itemId (items ! j)) = Some j \<and> itemId (items ! j) = k)"
        using Some False by auto
      with ih False Cons.prems(3) p Some de show ?thesis
        by (auto simp: entry_def map_find_def)
    qed
  qed
qed

subsection \<open>An event that is not the last of the store\<close>

text \<open>
  Event 1 comes first in the store, has the attendees 7 and 8 and holds 4 chairs;
  event 2 has the attendee 9; the item counts 4 chairs as allocated.
\<close>

definition attendee_of :: "int \<Rightarrow> string \<Rightarrow> int \<Rightarrow> Attendee" where
  "attendee_of k n e =
     \<lparr>attendeeId = k, a_name = n, contactInfo = ''contact'', eventIdRegisteredFor = e,
      isCheckedIn = False\<rparr>"

definition booked_System :: System where
  "booked_System =
     example_System
       \<lparr>events := [(example_event 1 ''E1'')\<lparr>attendeeIds := [7, 8], allocatedInventory := [(2, 4)]\<rparr>,
                   (example_event 2 ''E2'')\<lparr>attendeeIds := [9]\<rparr>],
        inventory := [chairs\<lparr>allocatedQuantity := 4\<rparr>],
        allAttendees := [attendee_of 7 ''A1'' 1, attendee_of 8 ''A2'' 1, attendee_of 9 ''A3'' 2],
        nextAttendeeId := 10\<rparr>"

lemmas remove_if_eval = remove_if_def remove_if_loop.simps erase_remove_if_def

text \<open>
  C6 (deleting an event, at any position of the store, removes its attendees and
  returns its allocations to the items). The code returns the allocations only when
  the event is the last element of the store. \<open>remove_if\<close> moves the events behind the
  deleted one forward, and the iterator it returns points to what the last move left
  behind, an event with an empty allocation map; \<open>deleteEvent\<close> reads the map, the name
  and the id through that iterator. Deleting event 1 here removes the event and its two
  attendees, but the item still counts 4 chairs as allocated, and the report names the
  id of event 2.
\<close>

theorem deleteEvent_keeps_allocation:
  "allocatedInventory (events booked_System ! 0) = [(2, 4)] \<and>
   inventory booked_System = [chairs\<lparr>allocatedQuantity := 4\<rparr>] \<and>
   deleteEvent 1 booked_System
     = (booked_System\<lparr>events := [(example_event 2 ''E2'')\<lparr>attendeeIds := [9]\<rparr>],
                       allAttendees := [attendee_of 9 ''A3'' 2]\<rparr>,
        [EventDeleted [] 2]) \<and>
   inventory (fst (deleteEvent 1 booked_System)) = [chairs\<lparr>allocatedQuantity := 4\<rparr>]"
  by (simp add: booked_System_def example_defs attendee_of_def deleteEvent_def remove_if_eval
      moved_Event_def moved_Attendee_def Let_def)

section \<open>Loading a file with a malformed line\<close>

text \<open>
  The first \<open>getline\<close> of every decoder reads the line up to its first comma, and every
  decoder hands that field to \<open>stoi\<close> first.
\<close>

lemma getline_first_field:
  "snd (getline delim (stringstream str) old) = takeWhile (\<lambda>c. c \<noteq> delim) str"
proof (cases "delim \<in> set str")
  case False
  then have tw: "takeWhile (\<lambda>c. c \<noteq> delim) str = str"
    by (intro takeWhile_eq_all_conv [THEN iffD2]) blast
  have "good (stringstream str)" "buf (stringstream str) = str"
    by (simp_all add: good_def stringstream_def)
  with False have "snd (getline delim (stringstream str) old) = str"
    by (simp add: getline_eof)
  then show ?thesis by (simp only: tw)
next
  case True
  then obtain tok rest where sp: "str = tok @ delim # rest" "delim \<notin> set tok"
    by (meson split_list_first)
  from sp(2) have "\<And>x. x \<in> set tok \<Longrightarrow> x \<noteq> delim" by blast
  then have tw: "takeWhile (\<lambda>c. c \<noteq> delim) str = tok"
    unfolding sp(1) by (simp add: takeWhile_append2)
  have "good (stringstream str)" "buf (stringstream str) = tok @ delim # rest"
    using sp by (simp_all add: good_def stringstream_def)
  from getline_delim [OF this sp(2)] tw show ?thesis by simp
qed

lemma User_fromString_bad_id:
  "stoi (takeWhile (\<lambda>c. c \<noteq> CHR '','') str) = Inl e \<Longrightarrow>
   User_fromString str
     = (None, [if str = [] \<or> count_list str CHR '','' < 3 then MalformedUserLine str
               else InvalidUserFormat str e])"
  by (simp add: User_fromString_def case_prod_beta getline_first_field)

lemma Attendee_fromString_bad_id:
  "stoi (takeWhile (\<lambda>c. c \<noteq> CHR '','') str) = Inl e \<Longrightarrow>
   Attendee_fromString str = (Attendee_error, [MalformedAttendeeLine str e])"
  by (simp add: Attendee_fromString_def case_prod_beta getline_first_field)

lemma InventoryItem_fromString_bad_id:
  "stoi (takeWhile (\<lambda>c. c \<noteq> CHR '','') str) = Inl e \<Longrightarrow>
   InventoryItem_fromString str = (InventoryItem_error, [MalformedInventoryLine str e])"
  by (simp add: InventoryItem_fromString_def case_prod_beta getline_first_field)

lemma Event_fromString_bad_id:
  "stoi (takeWhile (\<lambda>c. c \<noteq> CHR '','') str) = Inl e \<Longrightarrow>
   Event_fromString str = Inl (logic_error, [MalformedEventLine str e])"
  by (simp add: Event_fromString_def case_prod_beta getline_first_field Event_error_def)

text \<open>
  \<open>stoi\<close> also accepts a field that only begins with an integer, such as \<open>1x\<close>, and
  returns that integer. A line whose other fields are those of the line of a record
  (with plain fields: see below) is then decoded as that record with the integer as
  its id, without a diagnostic.
\<close>

definition plain_User :: "User \<Rightarrow> bool" where
  "plain_User u \<longleftrightarrow>
     CHR '','' \<notin> set (username u) \<and> CHR '','' \<notin> set (password u) \<and> role u \<noteq> NONE"

definition plain_Attendee :: "Attendee \<Rightarrow> bool" where
  "plain_Attendee a \<longleftrightarrow>
     CHR '','' \<notin> set (a_name a) \<and> CHR '','' \<notin> set (contactInfo a) \<and>
     in_int_range (eventIdRegisteredFor a)"

definition plain_InventoryItem :: "InventoryItem \<Rightarrow> bool" where
  "plain_InventoryItem i \<longleftrightarrow>
     CHR '','' \<notin> set (i_name i) \<and> CHR 0x0A \<notin> set (i_description i) \<and>
     in_int_range (totalQuantity i) \<and> in_int_range (allocatedQuantity i)"

lemma drop_id_field:
  "dropWhile (\<lambda>c. c \<noteq> CHR '','') (to_string i @ CHR '','' # rest) = CHR '','' # rest"
proof -
  have "\<And>x. x \<in> set (to_string i) \<Longrightarrow> x \<noteq> CHR '',''"
    using comma_not_in_to_string [of i] by blast
  then show ?thesis by (simp add: dropWhile_append2)
qed

lemma User_fromString_id_token:
  assumes "stoi tok = Inr n" "CHR '','' \<notin> set tok" "plain_User u"
  shows "User_fromString (tok @ dropWhile (\<lambda>c. c \<noteq> CHR '','') (User_toString u))
           = (Some (u\<lparr>userId := n\<rparr>), [])"
proof -
  have c0: "count_list tok CHR '','' = 0"
    "count_list (username u) CHR '','' = 0" "count_list (password u) CHR '','' = 0"
    using assms by (simp_all add: count_list_0_iff plain_User_def)
  from assms(3) have r: "role u = ADMIN \<or> role u = REGULAR_USER"
    by (cases "role u") (simp_all add: plain_User_def)
  then show ?thesis
  proof
    assume "role u = ADMIN"
    with assms c0 show ?thesis
      by (cases u)
         (simp add: User_fromString_def User_toString_def stringstream_def to_string_small
            getline_field getline_last_field drop_id_field plain_User_def
            stoi_to_string_range [of 0, unfolded to_string_small] in_int_range_def
            INT_MIN_def INT_MAX_def)
  next
    assume "role u = REGULAR_USER"
    with assms c0 show ?thesis
      by (cases u)
         (simp add: User_fromString_def User_toString_def stringstream_def to_string_small
            getline_field getline_last_field drop_id_field plain_User_def
            stoi_to_string_range [of 1, unfolded to_string_small] in_int_range_def
            INT_MIN_def INT_MAX_def)
  qed
qed

lemma Attendee_fromString_id_token:
  assumes "stoi tok = Inr n" "CHR '','' \<notin> set tok" "plain_Attendee a"
  shows "Attendee_fromString (tok @ dropWhile (\<lambda>c. c \<noteq> CHR '','') (Attendee_toString a))
           = (a\<lparr>attendeeId := n\<rparr>, [])"
  using assms
  by (cases a; cases "isCheckedIn a")
     (simp_all add: Attendee_fromString_def Attendee_toString_def stringstream_def
        getline_field getline_last_field drop_id_field comma_not_in_to_string
        stoi_to_string_range plain_Attendee_def)

lemma InventoryItem_fromString_id_token:
  assumes "stoi tok = Inr n" "CHR '','' \<notin> set tok" "plain_InventoryItem i"
  shows "InventoryItem_fromString
           (tok @ dropWhile (\<lambda>c. c \<noteq> CHR '','') (InventoryItem_toString i))
           = (i\<lparr>itemId := n\<rparr>, [])"
  using assms
  by (cases i)
     (simp add: InventoryItem_fromString_def InventoryItem_toString_def stringstream_def
        getline_field getline_last_field drop_id_field comma_not_in_to_string
        stoi_to_string_range plain_InventoryItem_def)

lemma load_two_users:
  assumes "l1 \<noteq> []" "l2 \<noteq> []"
    and "User_fromString l1 = (Some u1, [])" "User_fromString l2 = (Some u2, [])"
  shows "users (fst (loadUsers (Some [l1, l2]) s)) = users s @ [nextAddr s, Suc (nextAddr s)] \<and>
         heap (fst (loadUsers (Some [l1, l2]) s)) (nextAddr s) = Some u1 \<and>
         heap (fst (loadUsers (Some [l1, l2]) s)) (Suc (nextAddr s)) = Some u2 \<and>
         snd (loadUsers (Some [l1, l2]) s) = []"
  using assms by (simp add: loadUsers_def load_user_line_def push_user_def)

lemma load_two_attendees:
  assumes "l1 \<noteq> []" "l2 \<noteq> []"
    and "Attendee_fromString l1 = (a1, [])" "Attendee_fromString l2 = (a2, [])"
  shows "allAttendees (fst (loadAttendees (Some [l1, l2]) s)) = allAttendees s @ [a1, a2] \<and>
         snd (loadAttendees (Some [l1, l2]) s) = []"
  using assms by (simp add: loadAttendees_def load_attendee_line_def)

lemma load_two_items:
  assumes "l1 \<noteq> []" "l2 \<noteq> []"
    and "InventoryItem_fromString l1 = (i1, [])" "InventoryItem_fromString l2 = (i2, [])"
  shows "inventory (fst (loadInventory (Some [l1, l2]) s)) = inventory s @ [i1, i2] \<and>
         snd (loadInventory (Some [l1, l2]) s) = []"
  using assms by (simp add: loadInventory_def load_inventory_line_def)

lemma id_token_line_not_empty:
  "tok @ dropWhile (\<lambda>c. c \<noteq> CHR '','') (User_toString u) \<noteq> []"
  "tok @ dropWhile (\<lambda>c. c \<noteq> CHR '','') (Attendee_toString a) \<noteq> []"
  "tok @ dropWhile (\<lambda>c. c \<noteq> CHR '','') (InventoryItem_toString i) \<noteq> []"
  by (simp_all add: User_toString_def Attendee_toString_def InventoryItem_toString_def
      drop_id_field)

text \<open>
  C7, as amended, for users, attendees and inventory items. A file holds a line that
  the decoder of the entity type accepts without a diagnostic and a line whose id
  field is not an integer; the lines come in either order. The load never stops at
  the second line. When \<open>stoi\<close> rejects the id field (line \<open>bl\<close>), exactly one
  diagnostic is emitted, for \<open>bl\<close>; for users the store gains exactly one record, the
  well-formed one; for attendees and for inventory items the store gains two records,
  the well-formed one and the error record that the decoder returns for \<open>bl\<close>. When
  \<open>stoi\<close> accepts the id field \<open>tok\<close> and reads \<open>n\<close> from it, and the other fields are
  those of the line of a record with plain fields, no diagnostic is emitted and the
  store gains two records: the well-formed one and that record with \<open>n\<close> as its id.
\<close>

theorem malformed_id_line_is_reported:
  "(bl \<noteq> [] \<and> stoi (takeWhile (\<lambda>c. c \<noteq> CHR '','') bl) = Inl e \<longrightarrow>
     (wu \<noteq> [] \<and> User_fromString wu = (Some u, []) \<longrightarrow>
       (\<forall>f \<in> {[wu, bl], [bl, wu]}.
          users (fst (loadUsers (Some f) s)) = users s @ [nextAddr s] \<and>
          heap (fst (loadUsers (Some f) s)) (nextAddr s) = Some u \<and>
          snd (loadUsers (Some f) s)
            = [if count_list bl CHR '','' < 3 then MalformedUserLine bl
               else InvalidUserFormat bl e])) \<and>
     (wa \<noteq> [] \<and> Attendee_fromString wa = (a, []) \<longrightarrow>
        allAttendees (fst (loadAttendees (Some [wa, bl]) s))
          = allAttendees s @ [a, Attendee_error] \<and>
        allAttendees (fst (loadAttendees (Some [bl, wa]) s))
          = allAttendees s @ [Attendee_error, a] \<and>
        (\<forall>f \<in> {[wa, bl], [bl, wa]}.
           snd (loadAttendees (Some f) s) = [MalformedAttendeeLine bl e])) \<and>
     (wi \<noteq> [] \<and> InventoryItem_fromString wi = (i, []) \<longrightarrow>
        inventory (fst (loadInventory (Some [wi, bl]) s))
          = inventory s @ [i, InventoryItem_error] \<and>
        inventory (fst (loadInventory (Some [bl, wi]) s))
          = inventory s @ [InventoryItem_error, i] \<and>
        (\<forall>f \<in> {[wi, bl], [bl, wi]}.
           snd (loadInventory (Some f) s) = [MalformedInventoryLine bl e]))) \<and>
   (stoi tok = Inr n \<and> CHR '','' \<notin> set tok \<longrightarrow>
     (wu \<noteq> [] \<and> User_fromString wu = (Some u, []) \<and> plain_User ur \<longrightarrow>
        (let l = tok @ dropWhile (\<lambda>c. c \<noteq> CHR '','') (User_toString ur)
         in users (fst (loadUsers (Some [wu, l]) s)) = users s @ [nextAddr s, Suc (nextAddr s)] \<and>
            heap (fst (loadUsers (Some [wu, l]) s)) (nextAddr s) = Some u \<and>
            heap (fst (loadUsers (Some [wu, l]) s)) (Suc (nextAddr s))
              = Some (ur\<lparr>userId := n\<rparr>) \<and>
            users (fst (loadUsers (Some [l, wu]) s)) = users s @ [nextAddr s, Suc (nextAddr s)] \<and>
            heap (fst (loadUsers (Some [l, wu]) s)) (nextAddr s) = Some (ur\<lparr>userId := n\<rparr>) \<and>
            heap (fst (loadUsers (Some [l, wu]) s)) (Suc (nextAddr s)) = Some u \<and>
            snd (loadUsers (Some [wu, l]) s) = [] \<and> snd (loadUsers (Some [l, wu]) s) = [])) \<and>
     (wa \<noteq> [] \<and> Attendee_fromString wa = (a, []) \<and> plain_Attendee ar \<longrightarrow>
        (let l = tok @ dropWhile (\<lambda>c. c \<noteq> CHR '','') (Attendee_toString ar)
         in allAttendees (fst (loadAttendees (Some [wa, l]) s))
              = allAttendees s @ [a, ar\<lparr>attendeeId := n\<rparr>] \<and>
            allAttendees (fst (loadAttendees (Some [l, wa]) s))
              = allAttendees s @ [ar\<lparr>attendeeId := n\<rparr>, a] \<and>
            snd (loadAttendees (Some [wa, l]) s) = [] \<and>
            snd (loadAttendees (Some [l, wa]) s) = [])) \<and>
     (wi \<noteq> [] \<and> InventoryItem_fromString wi = (i, []) \<and> plain_InventoryItem ir \<longrightarrow>
        (let l = tok @ dropWhile (\<lambda>c. c \<noteq> CHR '','') (InventoryItem_toString ir)
         in inventory (fst (loadInventory (Some [wi, l]) s))
              = inventory s @ [i, ir\<lparr>itemId := n\<rparr>] \<and>
            inventory (fst (loadInventory (Some [l, wi]) s))
              = inventory s @ [ir\<lparr>itemId := n\<rparr>, i] \<and>
            snd (loadInventory (Some [wi, l]) s) = [] \<and>
            snd (loadInventory (Some [l, wi]) s) = [])))"
proof -
  have A: "bl \<noteq> [] \<and> stoi (takeWhile (\<lambda>c. c \<noteq> CHR '','') bl) = Inl e \<longrightarrow>
     (wu \<noteq> [] \<and> User_fromString wu = (Some u, []) \<longrightarrow>
       (\<forall>f \<in> {[wu, bl], [bl, wu]}.
          users (fst (loadUsers (Some f) s)) = users s @ [nextAddr s] \<and>
          heap (fst (loadUsers (Some f) s)) (nextAddr s) = Some u \<and>
          snd (loadUsers (Some f) s)
            = [if count_list bl CHR '','' < 3 then MalformedUserLine bl
               else InvalidUserFormat bl e])) \<and>
     (wa \<noteq> [] \<and> Attendee_fromString wa = (a, []) \<longrightarrow>
        allAttendees (fst (loadAttendees (Some [wa, bl]) s))
          = allAttendees s @ [a, Attendee_error] \<and>
        allAttendees (fst (loadAttendees (Some [bl, wa]) s))
          = allAttendees s @ [Attendee_error, a] \<and>
        (\<forall>f \<in> {[wa, bl], [bl, wa]}.
           snd (loadAttendees (Some f) s) = [MalformedAttendeeLine bl e])) \<and>
     (wi \<noteq> [] \<and> InventoryItem_fromString wi = (i, []) \<longrightarrow>
        inventory (fst (loadInventory (Some [wi, bl]) s))
          = inventory s @ [i, InventoryItem_error] \<and>
        inventory (fst (loadInventory (Some [bl, wi]) s))
          = inventory s @ [InventoryItem_error, i] \<and>
        (\<forall>f \<in> {[wi, bl], [bl, wi]}.
           snd (loadInventory (Some f) s) = [MalformedInventoryLine bl e]))"
    by (simp add: loadUsers_def load_user_line_def User_fromString_bad_id push_user_def
        loadAttendees_def load_attendee_line_def Attendee_fromString_bad_id
        loadInventory_def load_inventory_line_def InventoryItem_fromString_bad_id)
  have U: "stoi tok = Inr n \<and> CHR '','' \<notin> set tok \<longrightarrow>
     (wu \<noteq> [] \<and> User_fromString wu = (Some u, []) \<and> plain_User ur \<longrightarrow>
        (let l = tok @ dropWhile (\<lambda>c. c \<noteq> CHR '','') (User_toString ur)
         in users (fst (loadUsers (Some [wu, l]) s)) = users s @ [nextAddr s, Suc (nextAddr s)] \<and>
            heap (fst (loadUsers (Some [wu, l]) s)) (nextAddr s) = Some u \<and>
            heap (fst (loadUsers (Some [wu, l]) s)) (Suc (nextAddr s))
              = Some (ur\<lparr>userId := n\<rparr>) \<and>
            users (fst (loadUsers (Some [l, wu]) s)) = users s @ [nextAddr s, Suc (nextAddr s)] \<and>
            heap (fst (loadUsers (Some [l, wu]) s)) (nextAddr s) = Some (ur\<lparr>userId := n\<rparr>) \<and>
            heap (fst (loadUsers (Some [l, wu]) s)) (Suc (nextAddr s)) = Some u \<and>
            snd (loadUsers (Some [wu, l]) s) = [] \<and> snd (loadUsers (Some [l, wu]) s) = []))"
  proof (intro impI)
    assume t: "stoi tok = Inr n \<and> CHR '','' \<notin> set tok"
      and w: "wu \<noteq> [] \<and> User_fromString wu = (Some u, []) \<and> plain_User ur"
    let ?l = "tok @ dropWhile (\<lambda>c. c \<noteq> CHR '','') (User_toString ur)"
    from t w have d: "User_fromString ?l = (Some (ur\<lparr>userId := n\<rparr>), [])"
      by (simp add: User_fromString_id_token)
    have ne: "?l \<noteq> []" by (rule id_token_line_not_empty)
    from w have w1: "wu \<noteq> []" and w2: "User_fromString wu = (Some u, [])" by simp_all
    from load_two_users [OF w1 ne w2 d, of s] load_two_users [OF ne w1 d w2, of s]
    show "let l = ?l
         in users (fst (loadUsers (Some [wu, l]) s)) = users s @ [nextAddr s, Suc (nextAddr s)] \<and>
            heap (fst (loadUsers (Some [wu, l]) s)) (nextAddr s) = Some u \<and>
            heap (fst (loadUsers (Some [wu, l]) s)) (Suc (nextAddr s))
              = Some (ur\<lparr>userId := n\<rparr>) \<and>
            users (fst (loadUsers (Some [l, wu]) s)) = users s @ [nextAddr s, Suc (nextAddr s)] \<and>
            heap (fst (loadUsers (Some [l, wu]) s)) (nextAddr s) = Some (ur\<lparr>userId := n\<rparr>) \<and>
            heap (fst (loadUsers (Some [l, wu]) s)) (Suc (nextAddr s)) = Some u \<and>
            snd (loadUsers (Some [wu, l]) s) = [] \<and> snd (loadUsers (Some [l, wu]) s) = []"
      unfolding Let_def by blast
  qed
  have T: "stoi tok = Inr n \<and> CHR '','' \<notin> set tok \<longrightarrow>
     (wa \<noteq> [] \<and> Attendee_fromString wa = (a, []) \<and> plain_Attendee ar \<longrightarrow>
        (let l = tok @ dropWhile (\<lambda>c. c \<noteq> CHR '','') (Attendee_toString ar)
         in allAttendees (fst (loadAttendees (Some [wa, l]) s))
              = allAttendees s @ [a, ar\<lparr>attendeeId := n\<rparr>] \<and>
            allAttendees (fst (loadAttendees (Some [l, wa]) s))
              = allAttendees s @ [ar\<lparr>attendeeId := n\<rparr>, a] \<and>
            snd (loadAttendees (Some [wa, l]) s) = [] \<and>
            snd (loadAttendees (Some [l, wa]) s) = []))"
  proof (intro impI)
    assume t: "stoi tok = Inr n \<and> CHR '','' \<notin> set tok"
      and w: "wa \<noteq> [] \<and> Attendee_fromString wa = (a, []) \<and> plain_Attendee ar"
    let ?l = "tok @ dropWhile (\<lambda>c. c \<noteq> CHR '','') (Attendee_toString ar)"
    from t w have d: "Attendee_fromString ?l = (ar\<lparr>attendeeId := n\<rparr>, [])"
      by (simp add: Attendee_fromString_id_token)
    have ne: "?l \<noteq> []" by (rule id_token_line_not_empty)
    from w have w1: "wa \<noteq> []" and w2: "Attendee_fromString wa = (a, [])" by simp_all
    from load_two_attendees [OF w1 ne w2 d, of s] load_two_attendees [OF ne w1 d w2, of s]
    show "let l = ?l
         in allAttendees (fst (loadAttendees (Some [wa, l]) s))
              = allAttendees s @ [a, ar\<lparr>attendeeId := n\<rparr>] \<and>
            allAttendees (fst (loadAttendees (Some [l, wa]) s))
              = allAttendees s @ [ar\<lparr>attendeeId := n\<rparr>, a] \<and>
            snd (loadAttendees (Some [wa, l]) s) = [] \<and>
            snd (loadAttendees (Some [l, wa]) s) = []"
      unfolding Let_def by blast
  qed
  have I: "stoi tok = Inr n \<and> CHR '','' \<notin> set tok \<longrightarrow>
     (wi \<noteq> [] \<and> InventoryItem_fromString wi = (i, []) \<and> plain_InventoryItem ir \<longrightarrow>
        (let l = tok @ dropWhile (\<lambda>c. c \<noteq> CHR '','') (InventoryItem_toString ir)
         in inventory (fst (loadInventory (Some [wi, l]) s))
              = inventory s @ [i, ir\<lparr>itemId := n\<rparr>] \<and>
            inventory (fst (loadInventory (Some [l, wi]) s))
              = inventory s @ [ir\<lparr>itemId := n\<rparr>, i] \<and>
            snd (loadInventory (Some [wi, l]) s) = [] \<and>
            snd (loadInventory (Some [l, wi]) s) = []))"
  proof (intro impI)
    assume t: "stoi tok = Inr n \<and> CHR '','' \<notin> set tok"
      and w: "wi \<noteq> [] \<and> InventoryItem_fromString wi = (i, []) \<and> plain_InventoryItem ir"
    let ?l = "tok @ dropWhile (\<lambda>c. c \<noteq> CHR '','') (InventoryItem_toString ir)"
    from t w have d: "InventoryItem_fromString ?l = (ir\<lparr>itemId := n\<rparr>, [])"
      by (simp add: InventoryItem_fromString_id_token)
    have ne: "?l \<noteq> []" by (rule id_token_line_not_empty)
    from w have w1: "wi \<noteq> []" and w2: "InventoryItem_fromString wi = (i, [])" by simp_all
    from load_two_items [OF w1 ne w2 d, of s] load_two_items [OF ne w1 d w2, of s]
    show "let l = ?l
         in inventory (fst (loadInventory (Some [wi, l]) s))
              = inventory s @ [i, ir\<lparr>itemId := n\<rparr>] \<and>
            inventory (fst (loadInventory (Some [l, wi]) s))
              = inventory s @ [ir\<lparr>itemId := n\<rparr>, i] \<and>
            snd (loadInventory (Some [wi, l]) s) = [] \<and>
            snd (loadInventory (Some [l, wi]) s) = []"
      unfolding Let_def by blast
  qed
  from A U T I show ?thesis by blast
qed


text \<open>The lines of the examples.\<close>

definition ann :: Attendee where
  "ann =
     \<lparr>attendeeId = 1, a_name = ''Ann'', contactInfo = ''ann@example.org'',
      eventIdRegisteredFor = 2, isCheckedIn = False\<rparr>"

definition bob :: User where
  "bob = \<lparr>userId = 7, username = ''bob'', password = ''secret'', role = REGULAR_USER\<rparr>"

lemmas codec_eval =
  User_fromString_def Attendee_fromString_def InventoryItem_fromString_def
  loadUsers_def load_user_line_def push_user_def loadAttendees_def load_attendee_line_def
  loadInventory_def load_inventory_line_def initNextId_def Attendee_error_def
  InventoryItem_error_def wrap_int_def

text \<open>
  C7 as amended, at files of two lines loaded into the initial state: a line whose id
  field \<open>x1\<close> is rejected, and the line of \<open>bob\<close> with \<open>1x\<close> in place of the id, which
  is read as \<open>1\<close>.
\<close>

theorem malformed_id_line_is_reported_witness:
  "stoi (takeWhile (\<lambda>c. c \<noteq> CHR '','') ''x1,Bob,bob@example.org,2,0'') = Inl invalid_argument \<and>
   User_fromString ''2,user1,user1pass,1'' = (Some user1, []) \<and>
   Attendee_fromString ''1,Ann,ann@example.org,2,0'' = (ann, []) \<and>
   InventoryItem_fromString ''2,Chairs,100,0,Standard chairs'' = (chairs, []) \<and>
   users (fst (loadUsers (Some [''2,user1,user1pass,1'', ''x1,Bob,bob@example.org,2,0''])
                 initial_System)) = [0] \<and>
   heap (fst (loadUsers (Some [''2,user1,user1pass,1'', ''x1,Bob,bob@example.org,2,0''])
                initial_System)) 0 = Some user1 \<and>
   snd (loadUsers (Some [''2,user1,user1pass,1'', ''x1,Bob,bob@example.org,2,0''])
          initial_System)
     = [InvalidUserFormat ''x1,Bob,bob@example.org,2,0'' invalid_argument] \<and>
   allAttendees
     (fst (loadAttendees (Some [''1,Ann,ann@example.org,2,0'', ''x1,Bob,bob@example.org,2,0''])
             initial_System)) = [ann, Attendee_error] \<and>
   snd (loadAttendees (Some [''1,Ann,ann@example.org,2,0'', ''x1,Bob,bob@example.org,2,0''])
          initial_System)
     = [MalformedAttendeeLine ''x1,Bob,bob@example.org,2,0'' invalid_argument] \<and>
   inventory
     (fst (loadInventory
             (Some [''2,Chairs,100,0,Standard chairs'', ''x1,Bob,bob@example.org,2,0''])
             initial_System)) = [chairs, InventoryItem_error] \<and>
   stoi ''1x'' = Inr 1 \<and> plain_User bob \<and>
   ''1x'' @ dropWhile (\<lambda>c. c \<noteq> CHR '','') (User_toString bob) = ''1x,bob,secret,1'' \<and>
   users (fst (loadUsers (Some [''2,user1,user1pass,1'', ''1x,bob,secret,1'']) initial_System))
     = [0, 1] \<and>
   heap (fst (loadUsers (Some [''2,user1,user1pass,1'', ''1x,bob,secret,1'']) initial_System)) 1
     = Some (bob\<lparr>userId := 1\<rparr>) \<and>
   snd (loadUsers (Some [''2,user1,user1pass,1'', ''1x,bob,secret,1'']) initial_System) = []"
proof -
  have ne: "''x1,Bob,bob@example.org,2,0'' \<noteq> []" by simp
  have bad: "stoi (takeWhile (\<lambda>c. c \<noteq> CHR '','') ''x1,Bob,bob@example.org,2,0'')
      = Inl invalid_argument"
    by (simp add: number_eval)
  have u: "User_fromString ''2,user1,user1pass,1'' = (Some user1, [])"
    by (simp add: User_fromString_def stream_eval number_eval user1_def)
  have a: "Attendee_fromString ''1,Ann,ann@example.org,2,0'' = (ann, [])"
    by (simp add: Attendee_fromString_def stream_eval number_eval ann_def)
  have i: "InventoryItem_fromString ''2,Chairs,100,0,Standard chairs'' = (chairs, [])"
    by (simp add: InventoryItem_fromString_def stream_eval number_eval chairs_def)
  have s: "users initial_System = []" "nextAddr initial_System = 0"
    "allAttendees initial_System = []" "inventory initial_System = []"
    by (simp_all add: initial_System_def)
  have tok: "stoi ''1x'' = Inr 1" "CHR '','' \<notin> set ''1x''"
    by (simp_all add: number_eval)
  have pb: "plain_User bob" by (simp add: plain_User_def bob_def)
  have l: "''1x'' @ dropWhile (\<lambda>c. c \<noteq> CHR '','') (User_toString bob) = ''1x,bob,secret,1''"
    by (simp add: User_toString_def bob_def number_eval)
  note at_example = malformed_id_line_is_reported
      [where bl = "''x1,Bob,bob@example.org,2,0''" and e = invalid_argument
        and wu = "''2,user1,user1pass,1''" and u = user1 and s = initial_System
        and wa = "''1,Ann,ann@example.org,2,0''" and a = ann
        and wi = "''2,Chairs,100,0,Standard chairs''" and i = chairs
        and tok = "''1x''" and n = 1 and ur = bob and ar = ann and ir = chairs]
  from at_example [THEN conjunct1] ne bad u a i
  have rejected:
    "users (fst (loadUsers (Some [''2,user1,user1pass,1'', ''x1,Bob,bob@example.org,2,0''])
                   initial_System)) = [0] \<and>
     heap (fst (loadUsers (Some [''2,user1,user1pass,1'', ''x1,Bob,bob@example.org,2,0''])
                  initial_System)) 0 = Some user1 \<and>
     snd (loadUsers (Some [''2,user1,user1pass,1'', ''x1,Bob,bob@example.org,2,0''])
            initial_System)
       = [InvalidUserFormat ''x1,Bob,bob@example.org,2,0'' invalid_argument] \<and>
     allAttendees
       (fst (loadAttendees (Some [''1,Ann,ann@example.org,2,0'', ''x1,Bob,bob@example.org,2,0''])
               initial_System)) = [ann, Attendee_error] \<and>
     snd (loadAttendees (Some [''1,Ann,ann@example.org,2,0'', ''x1,Bob,bob@example.org,2,0''])
            initial_System)
       = [MalformedAttendeeLine ''x1,Bob,bob@example.org,2,0'' invalid_argument] \<and>
     inventory
       (fst (loadInventory
               (Some [''2,Chairs,100,0,Standard chairs'', ''x1,Bob,bob@example.org,2,0''])
               initial_System)) = [chairs, InventoryItem_error]"
    by (simp add: s)
  from tok pb u
  have "let l = ''1x'' @ dropWhile (\<lambda>c. c \<noteq> CHR '','') (User_toString bob)
     in users (fst (loadUsers (Some [''2,user1,user1pass,1'', l]) initial_System))
          = users initial_System @ [nextAddr initial_System, Suc (nextAddr initial_System)] \<and>
        heap (fst (loadUsers (Some [''2,user1,user1pass,1'', l]) initial_System))
          (nextAddr initial_System) = Some user1 \<and>
        heap (fst (loadUsers (Some [''2,user1,user1pass,1'', l]) initial_System))
          (Suc (nextAddr initial_System)) = Some (bob\<lparr>userId := 1\<rparr>) \<and>
        users (fst (loadUsers (Some [l, ''2,user1,user1pass,1'']) initial_System))
          = users initial_System @ [nextAddr initial_System, Suc (nextAddr initial_System)] \<and>
        heap (fst (loadUsers (Some [l, ''2,user1,user1pass,1'']) initial_System))
          (nextAddr initial_System) = Some (bob\<lparr>userId := 1\<rparr>) \<and>
        heap (fst (loadUsers (Some [l, ''2,user1,user1pass,1'']) initial_System))
          (Suc (nextAddr initial_System)) = Some user1 \<and>
        snd (loadUsers (Some [''2,user1,user1pass,1'', l]) initial_System) = [] \<and>
        snd (loadUsers (Some [l, ''2,user1,user1pass,1'']) initial_System) = []"
    by (intro at_example [THEN conjunct2, rule_format, THEN conjunct1, rule_format]) simp_all
  then have accepted:
    "users (fst (loadUsers (Some [''2,user1,user1pass,1'', ''1x,bob,secret,1'']) initial_System))
       = [0, 1] \<and>
     heap (fst (loadUsers (Some [''2,user1,user1pass,1'', ''1x,bob,secret,1'']) initial_System)) 1
       = Some (bob\<lparr>userId := 1\<rparr>) \<and>
     snd (loadUsers (Some [''2,user1,user1pass,1'', ''1x,bob,secret,1'']) initial_System) = []"
    unfolding Let_def l by (simp add: s)
  from bad u a i tok pb l rejected accepted show ?thesis by blast
qed

text \<open>
  C7 as stated fails in both cases. With the id field \<open>x1\<close>, the attendee store and
  the inventory hold two records after the load, not one. With the id field \<open>1x\<close>, the
  user store holds two records and no diagnostic was emitted.
\<close>

theorem malformed_line_is_stored_counterexample:
  "allAttendees
     (fst (loadAttendees (Some [''1,Ann,ann@example.org,2,0'', ''x1,Bob,bob@example.org,2,0''])
             initial_System)) = [ann, Attendee_error] \<and>
   length (allAttendees
     (fst (loadAttendees (Some [''1,Ann,ann@example.org,2,0'', ''x1,Bob,bob@example.org,2,0''])
             initial_System))) = 2 \<and>
   length (inventory
     (fst (loadInventory
             (Some [''2,Chairs,100,0,Standard chairs'', ''x1,Bob,bob@example.org,2,0''])
             initial_System))) = 2 \<and>
   length (users
     (fst (loadUsers (Some [''2,user1,user1pass,1'', ''1x,bob,secret,1'']) initial_System))) = 2 \<and>
   snd (loadUsers (Some [''2,user1,user1pass,1'', ''1x,bob,secret,1'']) initial_System) = []"
  by (simp add: loadAttendees_def load_attendee_line_def loadInventory_def
      load_inventory_line_def case_prod_beta initial_System_def Attendee_fromString_def
      stream_eval number_eval ann_def Attendee_error_def loadUsers_def load_user_line_def
      User_fromString_def push_user_def)

text \<open>
  For events the decoder does not return from its handler (see \<open>Event_error\<close>), so a
  malformed line ends the load with an exception that nothing catches, after the
  warning of the handler.
\<close>

lemma malformed_event_line_ends_the_load:
  assumes "bl \<noteq> []" and "stoi (takeWhile (\<lambda>c. c \<noteq> CHR '','') bl) = Inl e"
    and "we \<noteq> []" and "Event_fromString we = Inr (ev, d)"
  shows "loadEvents (Some [we, bl]) s = Inl (logic_error, d @ [MalformedEventLine bl e])"
    and "loadEvents (Some [bl, we]) s = Inl (logic_error, [MalformedEventLine bl e])"
  using assms by (simp_all add: loadEvents_def Event_fromString_bad_id)


section \<open>Reconciliation after the load\<close>

text \<open>
  \<open>findInventoryItemById\<close> looks at ids only, and the reconciliation never changes an
  id, so the item it returns for a key is the same throughout the pass.
\<close>


lemma add_allocations_ids: "map itemId (add_allocations m items) = map itemId items"
proof (induction m arbitrary: items)
  case Nil
  show ?case by simp
next
  case (Cons p m)
  obtain k v where p: "p = (k, v)" by (cases p)
  show ?case
  proof (cases "findInventoryItemById items k")
    case None
    with Cons p show ?thesis by simp
  next
    case (Some i)
    have "map itemId
            (items[i := (items ! i)\<lparr>allocatedQuantity :=
                                      wrap_int (allocatedQuantity (items ! i) + v)\<rparr>])
        = map itemId items"
      by (simp add: map_update list_update_same_conv)
         (metis findInventoryItemById_Some Some list_update_id map_update nth_map)
    with Cons.IH p Some show ?thesis by simp
  qed
qed

text \<open>The quantities that the pairs of one map carry for a key.\<close>

definition pairs_for :: "int \<Rightarrow> int_map \<Rightarrow> int" where
  "pairs_for k m = sum_list (map snd (filter (\<lambda>p. fst p = k) m))"

text \<open>
  The pass adds in 32-bit arithmetic, one pair after the other; reduced to the range,
  the result is the sum of what was added.
\<close>

lemma add_allocations_quantity:
  "j < length items \<Longrightarrow>
   wrap_int (allocatedQuantity (add_allocations m items ! j))
     = wrap_int (allocatedQuantity (items ! j)
                 + (if findInventoryItemById items (itemId (items ! j)) = Some j
                    then pairs_for (itemId (items ! j)) m else 0))"
proof (induction m arbitrary: items)
  case Nil
  show ?case by (simp add: pairs_for_def)
next
  case (Cons p m)
  obtain k v where p: "p = (k, v)" by (cases p)
  show ?case
  proof (cases "findInventoryItemById items k")
    case None
    then have "\<forall>x\<in>set items. itemId x \<noteq> k"
      by (simp add: findInventoryItemById_def find_first_None)
    with Cons.prems have "itemId (items ! j) \<noteq> k" by simp
    with Cons.IH [OF Cons.prems] p None show ?thesis by (simp add: pairs_for_def)
  next
    case (Some i)
    let ?items = "items[i := (items ! i)\<lparr>allocatedQuantity :=
                                          wrap_int (allocatedQuantity (items ! i) + v)\<rparr>]"
    from findInventoryItemById_Some [OF Some]
    have i: "i < length items" "itemId (items ! i) = k" by simp_all
    have ids: "map itemId ?items = map itemId items"
      using i by (simp add: map_update list_update_same_conv)
    have idj: "itemId (?items ! j) = itemId (items ! j)"
      using Cons.prems i by (cases "j = i") simp_all
    have fnd: "findInventoryItemById ?items (itemId (items ! j))
        = findInventoryItemById items (itemId (items ! j))"
      by (rule findInventoryItemById_ids [OF ids])
    from Cons.prems have "j < length ?items" by simp
    from Cons.IH [OF this]
    have ih: "wrap_int (allocatedQuantity (add_allocations m ?items ! j))
        = wrap_int (allocatedQuantity (?items ! j)
                    + (if findInventoryItemById items (itemId (items ! j)) = Some j
                       then pairs_for (itemId (items ! j)) m else 0))"
      by (simp only: idj fnd)
    have step: "add_allocations (p # m) items = add_allocations m ?items"
      using p Some by simp
    show ?thesis
    proof (cases "j = i")
      case True
      have "wrap_int (wrap_int (allocatedQuantity (items ! i) + v) + pairs_for k m)
          = wrap_int (allocatedQuantity (items ! i) + (v + pairs_for k m))"
        by (simp add: wrap_int_add add.assoc)
      moreover have "pairs_for k (p # m) = v + pairs_for k m"
        by (simp add: p pairs_for_def)
      ultimately show ?thesis
        using ih i Some True by (simp add: step)
    next
      case False
      have ne: "\<not> (findInventoryItemById items (itemId (items ! j)) = Some j
                  \<and> itemId (items ! j) = k)"
        using Some False by auto
      have "(if findInventoryItemById items (itemId (items ! j)) = Some j
             then pairs_for (itemId (items ! j)) (p # m) else 0)
          = (if findInventoryItemById items (itemId (items ! j)) = Some j
             then pairs_for (itemId (items ! j)) m else 0)"
        using ne by (auto simp: p pairs_for_def)
      with ih False Cons.prems show ?thesis by (simp add: step)
    qed
  qed
qed

lemma add_allocations_range:
  "j < length items \<Longrightarrow> in_int_range (allocatedQuantity (items ! j)) \<Longrightarrow>
   in_int_range (allocatedQuantity (add_allocations m items ! j))"
proof (induction m arbitrary: items)
  case Nil
  then show ?case by simp
next
  case (Cons p m)
  obtain k v where p: "p = (k, v)" by (cases p)
  show ?case
  proof (cases "findInventoryItemById items k")
    case None
    with Cons p show ?thesis by simp
  next
    case (Some i)
    let ?items = "items[i := (items ! i)\<lparr>allocatedQuantity :=
                                          wrap_int (allocatedQuantity (items ! i) + v)\<rparr>]"
    from Cons.prems have j: "j < length ?items" by simp
    have "in_int_range (allocatedQuantity (?items ! j))"
      using Cons.prems by (cases "j = i") (simp_all add: wrap_int_range)
    from Cons.IH [OF j this] p Some show ?thesis by simp
  qed
qed

lemma reset_allocated_facts:
  "map itemId (reset_allocated items) = map itemId items"
  "length (reset_allocated items) = length items"
  "j < length items \<Longrightarrow> allocatedQuantity (reset_allocated items ! j) = 0"
  by (simp_all add: reset_allocated_def)

lemma fold_allocations_ids:
  "map itemId (foldl (\<lambda>acc e. add_allocations (allocatedInventory e) acc) items evs)
     = map itemId items"
  by (induction evs arbitrary: items) (simp_all add: add_allocations_ids)

lemma fold_allocations_quantity:
  "j < length items \<Longrightarrow>
   wrap_int
     (allocatedQuantity (foldl (\<lambda>acc e. add_allocations (allocatedInventory e) acc) items evs ! j))
     = wrap_int (allocatedQuantity (items ! j)
                 + (if findInventoryItemById items (itemId (items ! j)) = Some j
                    then (\<Sum>e\<leftarrow>evs. pairs_for (itemId (items ! j)) (allocatedInventory e))
                    else 0))"
proof (induction evs arbitrary: items)
  case Nil
  show ?case by simp
next
  case (Cons e evs)
  let ?items = "add_allocations (allocatedInventory e) items"
  let ?first = "findInventoryItemById items (itemId (items ! j)) = Some j"
  let ?rest = "\<Sum>e\<leftarrow>evs. pairs_for (itemId (items ! j)) (allocatedInventory e)"
  have ids: "map itemId ?items = map itemId items" by (rule add_allocations_ids)
  then have len: "length ?items = length items" by (metis length_map)
  with Cons.prems have j: "j < length ?items" by simp
  have idj: "itemId (?items ! j) = itemId (items ! j)"
    using ids Cons.prems len by (metis nth_map)
  have fnd: "findInventoryItemById ?items (itemId (items ! j))
      = findInventoryItemById items (itemId (items ! j))"
    by (rule findInventoryItemById_ids [OF ids])
  from Cons.IH [OF j]
  have "wrap_int
      (allocatedQuantity
         (foldl (\<lambda>acc e. add_allocations (allocatedInventory e) acc) ?items evs ! j))
      = wrap_int (allocatedQuantity (?items ! j) + (if ?first then ?rest else 0))"
    by (simp only: idj fnd)
  also have "\<dots> = wrap_int (wrap_int (allocatedQuantity (?items ! j))
                              + (if ?first then ?rest else 0))"
    by (simp only: wrap_int_add)
  also have "\<dots> = wrap_int
      (wrap_int (allocatedQuantity (items ! j)
                 + (if ?first then pairs_for (itemId (items ! j)) (allocatedInventory e) else 0))
       + (if ?first then ?rest else 0))"
    by (simp only: add_allocations_quantity [OF Cons.prems])
  also have "\<dots> = wrap_int
      (allocatedQuantity (items ! j)
       + (if ?first
          then (\<Sum>e\<leftarrow>e # evs. pairs_for (itemId (items ! j)) (allocatedInventory e)) else 0))"
    by (simp add: wrap_int_add add.assoc)
  finally show ?case by simp
qed

lemma fold_allocations_range:
  "j < length items \<Longrightarrow> in_int_range (allocatedQuantity (items ! j)) \<Longrightarrow>
   in_int_range
     (allocatedQuantity (foldl (\<lambda>acc e. add_allocations (allocatedInventory e) acc) items evs ! j))"
proof (induction evs arbitrary: items)
  case Nil
  then show ?case by simp
next
  case (Cons e evs)
  let ?items = "add_allocations (allocatedInventory e) items"
  have "map itemId ?items = map itemId items" by (rule add_allocations_ids)
  then have "length ?items = length items" by (metis length_map)
  with Cons.prems have j: "j < length ?items" by simp
  from Cons.IH [OF j add_allocations_range [OF Cons.prems]] show ?case by simp
qed

lemma pairs_for_entry: "distinct (map fst m) \<Longrightarrow> pairs_for k m = entry m k"
proof (induction m)
  case Nil
  show ?case by (simp add: pairs_for_def entry_def map_find_def)
next
  case (Cons p m)
  show ?case
  proof (cases "fst p = k")
    case True
    with Cons.prems have "k \<notin> fst ` set m" by auto
    then have "filter (\<lambda>p. fst p = k) m = []" by (auto simp: filter_empty_conv)
    with True show ?thesis
      by (cases p) (simp add: pairs_for_def entry_def map_find_def)
  next
    case False
    with Cons show ?thesis
      by (cases p) (simp add: pairs_for_def entry_def map_find_def)
  qed
qed

lemma is_map_distinct: "is_map m \<Longrightarrow> distinct (map fst m)"
  by (simp add: is_map_def strict_sorted_iff)


lemma map_put_member:
  "x \<in> set (map_put m k v) \<Longrightarrow> x = (k, v) \<or> x \<in> set m"
  by (induction m) (auto split: if_splits)

lemma map_put_keys: "fst ` set (map_put m k v) \<subseteq> insert k (fst ` set m)"
  using map_put_member [of _ m k v] by fastforce

text \<open>
  Every allocation map that the decoder builds is a map: it starts empty and grows by
  \<open>map_put\<close> only.
\<close>

lemma is_map_map_put: "is_map m \<Longrightarrow> is_map (map_put m k v)"
proof (induction m)
  case Nil
  show ?case by (simp add: is_map_def)
next
  case (Cons p m)
  obtain k' v' where p: "p = (k', v')" by (cases p)
  have keys: "fst ` set (map_put m k v) \<subseteq> insert k (fst ` set m)"
    by (rule map_put_keys)
  from Cons.prems p have tl: "is_map m" and hd: "\<forall>x\<in>set m. k' < fst x"
    by (simp_all add: is_map_def)
  show ?case
  proof (cases "k < k'")
    case True
    with Cons.prems p show ?thesis by (auto simp: is_map_def)
  next
    case False
    show ?thesis
    proof (cases "k = k'")
      case True
      with Cons.prems p show ?thesis by (simp add: is_map_def)
    next
      case ne: False
      with False have lt: "k' < k" by simp
      have "\<forall>x\<in>set (map_put m k v). k' < fst x"
      proof
        fix x assume "x \<in> set (map_put m k v)"
        then have "fst x \<in> insert k (fst ` set m)" using keys by blast
        with lt hd show "k' < fst x" by auto
      qed
      with Cons.IH [OF tl] False ne p show ?thesis by (simp add: is_map_def)
    qed
  qed
qed

lemma is_map_parse_inventory_items:
  "is_map m \<Longrightarrow> is_map (fst (parse_inventory_items ts m))"
  by (induction ts arbitrary: m)
     (auto simp: case_prod_beta is_map_map_put split: sum.splits)

lemma is_map_Event_fromString:
  "Event_fromString str = Inr (ev, d) \<Longrightarrow> is_map (allocatedInventory ev)"
proof -
  have nil: "is_map []" by (simp add: is_map_def)
  assume "Event_fromString str = Inr (ev, d)"
  then show ?thesis
    using is_map_parse_inventory_items [OF nil] nil
    by (auto simp: Event_fromString_def Event_parse_fields_def Event_error_def case_prod_beta
        Let_def split: sum.splits if_splits)
qed

text \<open>A state whose events all hold proper maps; the initial state is one.\<close>

definition maps_ok :: "System \<Rightarrow> bool" where
  "maps_ok s \<longleftrightarrow> list_all (\<lambda>e. is_map (allocatedInventory e)) (events s)"

lemma load_event_lines_maps:
  "load_event_lines ls acc = Inr r \<Longrightarrow> maps_ok (fst acc) \<Longrightarrow> maps_ok (fst r)"
proof (induction ls arbitrary: acc)
  case Nil
  then show ?case by simp
next
  case (Cons l ls)
  show ?case
  proof (cases "l = []")
    case True
    with Cons show ?thesis by simp
  next
    case False
    with Cons.prems(1) obtain ev d where dec: "Event_fromString l = Inr (ev, d)"
      by (auto split: sum.splits)
    let ?acc = "((fst acc)\<lparr>events := events (fst acc) @ [ev],
                            nextEventId := initNextId (eventId ev) (nextEventId (fst acc))\<rparr>,
                 snd acc @ d)"
    from Cons.prems(1) False dec have rest: "load_event_lines ls ?acc = Inr r" by simp
    from is_map_Event_fromString [OF dec] Cons.prems(2) have "maps_ok (fst ?acc)"
      by (simp add: maps_ok_def)
    from Cons.IH [OF rest this] show ?thesis .
  qed
qed

lemma loadUsers_events: "events (fst (loadUsers f s)) = events s"
proof -
  have "\<And>acc. events (fst (foldl (\<lambda>acc l. load_user_line l acc) acc ls)) = events (fst acc)" for ls
    by (induction ls)
       (simp_all add: load_user_line_def push_user_def case_prod_beta split: option.splits)
  then show ?thesis by (simp add: loadUsers_def split: option.splits)
qed

lemma loadInventory_events: "events (fst (loadInventory f s)) = events s"
proof -
  have "\<And>acc. events (fst (foldl (\<lambda>acc l. load_inventory_line l acc) acc ls)) = events (fst acc)" for ls
    by (induction ls) (simp_all add: load_inventory_line_def case_prod_beta)
  then show ?thesis by (simp add: loadInventory_def split: option.splits)
qed

lemma loadAttendees_events: "events (fst (loadAttendees f s)) = events s"
proof -
  have "\<And>acc. events (fst (foldl (\<lambda>acc l. load_attendee_line l acc) acc ls)) = events (fst acc)" for ls
    by (induction ls) (simp_all add: load_attendee_line_def case_prod_beta)
  then show ?thesis by (simp add: loadAttendees_def split: option.splits)
qed

lemma loadAttendees_inventory: "inventory (fst (loadAttendees f s)) = inventory s"
proof -
  have "\<And>acc. inventory (fst (foldl (\<lambda>acc l. load_attendee_line l acc) acc ls)) = inventory (fst acc)" for ls
    by (induction ls) (simp_all add: load_attendee_line_def case_prod_beta)
  then show ?thesis by (simp add: loadAttendees_def split: option.splits)
qed

lemma loadData_result:
  assumes "loadData usersFile eventsFile inventoryFile attendeesFile s = Inr (s', d)"
  shows "\<exists>items. inventory s' = reconcile_allocations (events s') items"
    and "maps_ok s \<Longrightarrow> maps_ok s'"
proof -
  obtain s2 d2 where le: "loadEvents eventsFile (fst (loadUsers usersFile s)) = Inr (s2, d2)"
    using assms by (auto simp: loadData_def case_prod_beta split: sum.splits)
  let ?s4 = "fst (loadAttendees attendeesFile (fst (loadInventory inventoryFile s2)))"
  have ev4: "events ?s4 = events s2"
    by (simp add: loadAttendees_events loadInventory_events)
  from assms le have s': "inventory s' = reconcile_allocations (events ?s4) (inventory ?s4)"
    "events s' = events ?s4"
    by (auto simp: loadData_def case_prod_beta Let_def)
  then show "\<exists>items. inventory s' = reconcile_allocations (events s') items" by auto
  assume ok: "maps_ok s"
  then have "maps_ok (fst (loadUsers usersFile s))"
    by (simp add: maps_ok_def loadUsers_events)
  with le have "maps_ok s2"
    by (cases eventsFile)
       (auto simp: loadEvents_def dest: load_event_lines_maps)
  with s'(2) ev4 show "maps_ok s'" by (simp add: maps_ok_def)
qed

text \<open>
  C2, as amended. When \<open>loadData\<close> returns, every inventory item that is the first of
  the store with its \<open>itemId\<close> has as \<open>allocatedQuantity\<close> the sum, over all events, of
  the event's entry for that id (\<open>0\<close> when absent), as 32-bit arithmetic gives it:
  the sum itself when it lies in the range of \<open>int\<close>, and the sum reduced modulo
  \<open>2\<^sup>3\<^sup>2\<close> into the range otherwise, whatever the inventory file said. An item that
  stands behind another item with the same id has \<open>allocatedQuantity\<close> \<open>0\<close>. When the
  ids of the store are distinct, every item is the first with its id.
\<close>

theorem reconciliation_sums_event_allocations:
  assumes ld: "loadData usersFile eventsFile inventoryFile attendeesFile s = Inr (s', d)"
    and ok: "maps_ok s"
  shows "\<forall>j<length (inventory s').
           allocatedQuantity (inventory s' ! j)
             = (if findInventoryItemById (inventory s') (itemId (inventory s' ! j)) = Some j
                then wrap_int
                       (\<Sum>e\<leftarrow>events s'. entry (allocatedInventory e) (itemId (inventory s' ! j)))
                else 0) \<and>
           (findInventoryItemById (inventory s') (itemId (inventory s' ! j)) = Some j \<and>
            in_int_range
              (\<Sum>e\<leftarrow>events s'. entry (allocatedInventory e) (itemId (inventory s' ! j))) \<longrightarrow>
              allocatedQuantity (inventory s' ! j)
                = (\<Sum>e\<leftarrow>events s'. entry (allocatedInventory e) (itemId (inventory s' ! j))))"
proof (intro allI impI)
  fix j assume j: "j < length (inventory s')"
  from loadData_result(1) [OF ld] obtain items
    where inv: "inventory s' = reconcile_allocations (events s') items" by blast
  let ?start = "reset_allocated items"
  let ?sum = "\<Sum>e\<leftarrow>events s'. entry (allocatedInventory e) (itemId (inventory s' ! j))"
  have ids: "map itemId (inventory s') = map itemId ?start"
    by (simp add: inv reconcile_allocations_def fold_allocations_ids)
  then have len: "length (inventory s') = length ?start" by (metis length_map)
  with j have js: "j < length ?start" by simp
  then have ji: "j < length items" by (simp add: reset_allocated_facts)
  have idj: "itemId (inventory s' ! j) = itemId (?start ! j)"
    using ids j js by (metis nth_map)
  have fnd: "findInventoryItemById (inventory s') (itemId (?start ! j))
      = findInventoryItemById ?start (itemId (?start ! j))"
    by (rule findInventoryItemById_ids [OF ids])
  from loadData_result(2) [OF ld ok]
  have "\<forall>e\<in>set (events s'). distinct (map fst (allocatedInventory e))"
    by (simp add: maps_ok_def list_all_iff is_map_distinct)
  then have sums: "(\<Sum>e\<leftarrow>events s'. pairs_for (itemId (?start ! j)) (allocatedInventory e))
      = (\<Sum>e\<leftarrow>events s'. entry (allocatedInventory e) (itemId (?start ! j)))"
    by (intro arg_cong [where f = sum_list] map_cong) (simp_all add: pairs_for_entry)
  have zero: "allocatedQuantity (?start ! j) = 0"
    by (rule reset_allocated_facts(3) [OF ji])
  then have "in_int_range (allocatedQuantity (?start ! j))"
    by (simp add: in_int_range_def INT_MIN_def INT_MAX_def)
  from fold_allocations_range [OF js this, of "events s'"]
  have "in_int_range (allocatedQuantity (inventory s' ! j))"
    by (simp add: inv reconcile_allocations_def)
  then have "allocatedQuantity (inventory s' ! j)
      = wrap_int (allocatedQuantity (inventory s' ! j))"
    by (simp add: wrap_int_id)
  also from fold_allocations_quantity [OF js, of "events s'"]
  have "\<dots> = wrap_int
      (if findInventoryItemById (inventory s') (itemId (inventory s' ! j)) = Some j
       then ?sum else 0)"
    by (simp add: inv [symmetric] reconcile_allocations_def [symmetric] idj fnd sums zero)
  finally have eq: "allocatedQuantity (inventory s' ! j)
      = (if findInventoryItemById (inventory s') (itemId (inventory s' ! j)) = Some j
         then wrap_int ?sum else 0)"
    by (simp add: wrap_int_def)
  then show "allocatedQuantity (inventory s' ! j)
      = (if findInventoryItemById (inventory s') (itemId (inventory s' ! j)) = Some j
         then wrap_int ?sum else 0) \<and>
      (findInventoryItemById (inventory s') (itemId (inventory s' ! j)) = Some j \<and>
       in_int_range ?sum \<longrightarrow> allocatedQuantity (inventory s' ! j) = ?sum)"
    by (simp add: wrap_int_id)
qed


text \<open>The states that the files of the examples load into.\<close>

definition dinner :: Event where
  "dinner =
     \<lparr>eventId = 1, e_name = ''E1'', date = ''2025-10-20'', time = ''09:00'', location = ''Hall'',
      e_description = ''Dinner'', category = ''Social'', status = UPCOMING, attendeeIds = [],
      allocatedInventory = [(2, 4)]\<rparr>"

definition lunch :: Event where
  "lunch =
     \<lparr>eventId = 2, e_name = ''E2'', date = ''2025-10-21'', time = ''10:00'', location = ''Hall'',
      e_description = ''Lunch'', category = ''Social'', status = UPCOMING, attendeeIds = [],
      allocatedInventory = [(2, 6)]\<rparr>"

definition stools :: InventoryItem where
  "stools =
     \<lparr>itemId = 2, i_name = ''Stools'', totalQuantity = 50, allocatedQuantity = 0,
      i_description = ''Bar stools''\<rparr>"

definition loaded_System :: System where
  "loaded_System =
     initial_System\<lparr>events := [dinner, lunch], inventory := [chairs\<lparr>allocatedQuantity := 10\<rparr>],
                    nextEventId := 3, nextItemId := 3\<rparr>"

definition duplicate_System :: System where
  "duplicate_System =
     initial_System\<lparr>events := [dinner], inventory := [chairs\<lparr>allocatedQuantity := 4\<rparr>, stools],
                    nextEventId := 2, nextItemId := 3\<rparr>"

lemmas loadData_eval =
  loadData_def loadUsers_def loadEvents_def loadInventory_def loadAttendees_def
  load_inventory_line_def load_attendee_line_def load_user_line_def initNextId_def max_id_def
  reconcile_allocations_def reset_allocated_def InventoryItem_fromString_def
  Event_eval stream_eval number_eval lookup_eval wrap_int_def

text \<open>
  C2 as amended, at a load: the inventory file claims 57 allocated chairs, the two
  events hold 4 and 6, and the item ends with 10.
\<close>

theorem reconciliation_sums_event_allocations_witness:
  "loadData None
     (Some [''1,E1,2025-10-20,09:00,Hall,Dinner,Social,0,2:4'',
            ''2,E2,2025-10-21,10:00,Hall,Lunch,Social,0,2:6''])
     (Some [''2,Chairs,100,57,Standard chairs'']) None initial_System
     = Inr (loaded_System, []) \<and>
   maps_ok initial_System \<and>
   findInventoryItemById (inventory loaded_System) 2 = Some 0 \<and>
   allocatedQuantity (inventory loaded_System ! 0) = 10 \<and>
   (\<Sum>e\<leftarrow>events loaded_System. entry (allocatedInventory e) 2) = 10"
proof -
  have ld: "loadData None
     (Some [''1,E1,2025-10-20,09:00,Hall,Dinner,Social,0,2:4'',
            ''2,E2,2025-10-21,10:00,Hall,Lunch,Social,0,2:6''])
     (Some [''2,Chairs,100,57,Standard chairs'']) None initial_System
     = Inr (loaded_System, [])"
    by (simp add: loadData_eval loaded_System_def initial_System_def dinner_def lunch_def
        chairs_def UPCOMING_def)
  have ok: "maps_ok initial_System"
    by (simp add: maps_ok_def initial_System_def)
  have f: "findInventoryItemById (inventory loaded_System) 2 = Some 0"
    "itemId (inventory loaded_System ! 0) = 2" "0 < length (inventory loaded_System)"
    by (simp_all add: loaded_System_def initial_System_def chairs_def lookup_eval)
  have sm: "(\<Sum>e\<leftarrow>events loaded_System. entry (allocatedInventory e) 2) = 10"
    by (simp add: loaded_System_def initial_System_def dinner_def lunch_def entry_def
        map_find_def)
  from reconciliation_sums_event_allocations [OF ld ok] f
  have "allocatedQuantity (inventory loaded_System ! 0)
      = wrap_int (\<Sum>e\<leftarrow>events loaded_System. entry (allocatedInventory e) 2)"
    by auto
  with ld ok f sm show ?thesis by (simp add: wrap_int_def)
qed

text \<open>
  Two events that each hold \<open>2147483647\<close> units of item 2.
\<close>

definition crowded_System :: System where
  "crowded_System =
     initial_System
       \<lparr>events := [dinner\<lparr>allocatedInventory := [(2, 2147483647)]\<rparr>,
                   lunch\<lparr>allocatedInventory := [(2, 2147483647)]\<rparr>],
        inventory := [chairs\<lparr>allocatedQuantity := - 2\<rparr>], nextEventId := 3, nextItemId := 3\<rparr>"

text \<open>
  C2 as stated fails when two lines of the inventory file carry the same id: the
  second item ends with \<open>0\<close> although the events hold 4 units for its id. It also fails
  when the sum leaves the range of \<open>int\<close>: two events with \<open>2147483647\<close> units each
  leave the item with \<open>- 2\<close>.
\<close>

theorem reconciliation_skips_duplicate_id_counterexample:
  "loadData None (Some [''1,E1,2025-10-20,09:00,Hall,Dinner,Social,0,2:4''])
     (Some [''2,Chairs,100,0,Standard chairs'', ''2,Stools,50,0,Bar stools'']) None
     initial_System
     = Inr (duplicate_System, []) \<and>
   itemId (inventory duplicate_System ! 1) = 2 \<and>
   allocatedQuantity (inventory duplicate_System ! 1) = 0 \<and>
   (\<Sum>e\<leftarrow>events duplicate_System. entry (allocatedInventory e) 2) = 4 \<and>
   loadData None
     (Some [''1,E1,2025-10-20,09:00,Hall,Dinner,Social,0,2:2147483647'',
            ''2,E2,2025-10-21,10:00,Hall,Lunch,Social,0,2:2147483647''])
     (Some [''2,Chairs,100,0,Standard chairs'']) None initial_System
     = Inr (crowded_System, []) \<and>
   itemId (inventory crowded_System ! 0) = 2 \<and>
   allocatedQuantity (inventory crowded_System ! 0) = - 2 \<and>
   (\<Sum>e\<leftarrow>events crowded_System. entry (allocatedInventory e) 2) = 4294967294"
  by (simp add: loadData_eval duplicate_System_def crowded_System_def initial_System_def
      dinner_def lunch_def stools_def chairs_def UPCOMING_def entry_def map_find_def)


section \<open>Allocation at the edge of the range of \<open>int\<close>\<close>

text \<open>
  Two states that a load leads to. In the first, the events file records \<open>- 1\<close> units
  of item 1 and the item has the largest total there is. In the second, the events
  file records \<open>2147483647\<close> units of an item that the inventory does not have yet;
  the administrator then adds the item, which gets the id 1, with 10 units.
\<close>

definition edge_System :: System where
  "edge_System =
     initial_System
       \<lparr>events := [dinner\<lparr>allocatedInventory := [(1, - 1)]\<rparr>],
        inventory := [\<lparr>itemId = 1, i_name = ''Chairs'', totalQuantity = 2147483647,
                       allocatedQuantity = - 1, i_description = ''Standard chairs''\<rparr>],
        nextEventId := 2, nextItemId := 2\<rparr>"

definition full_System :: System where
  "full_System =
     initial_System\<lparr>events := [dinner\<lparr>allocatedInventory := [(1, 2147483647)]\<rparr>],
                    nextEventId := 2\<rparr>"

definition stocked_System :: System where
  "stocked_System =
     full_System\<lparr>inventory := [\<lparr>itemId = 1, i_name = ''Chairs'', totalQuantity = 10,
                                  allocatedQuantity = 0, i_description = ''Standard chairs''\<rparr>],
                 nextItemId := 2\<rparr>"

text \<open>
  C4 as stated fails in both states. In the first, one unit is asked for and
  \<open>totalQuantity - allocatedQuantity\<close> is \<open>2147483648\<close>, but the program computes
  \<open>- 2147483648\<close> and refuses. In the second, the allocation of one unit succeeds and
  the item counts one unit more, but the event's entry goes from \<open>2147483647\<close> to
  \<open>- 2147483648\<close>.
\<close>

theorem allocation_overflow_counterexample:
  "loadData None (Some [''1,E1,2025-10-20,09:00,Hall,Dinner,Social,0,1:-1''])
     (Some [''1,Chairs,2147483647,0,Standard chairs'']) None initial_System
     = Inr (edge_System, []) \<and>
   findEventById (events edge_System) 1 = Some 0 \<and>
   findInventoryItemById (inventory edge_System) 1 = Some 0 \<and>
   0 < (1::int) \<and>
   1 \<le> totalQuantity (inventory edge_System ! 0) - allocatedQuantity (inventory edge_System ! 0) \<and>
   trackInventoryAllocationToEvent 1 1 1 1 edge_System
     = (edge_System, [NotEnoughAvailable ''Chairs'' (- 2147483648)]) \<and>
   loadData None (Some [''1,E1,2025-10-20,09:00,Hall,Dinner,Social,0,1:2147483647''])
     None None initial_System
     = Inr (full_System, []) \<and>
   addInventoryItem ''Chairs'' 10 ''Standard chairs'' full_System
     = (stocked_System, [ItemAdded ''Chairs'' 1]) \<and>
   entry (allocatedInventory (events stocked_System ! 0)) 1 = 2147483647 \<and>
   allocatedQuantity
     (inventory (fst (trackInventoryAllocationToEvent 1 1 1 1 stocked_System)) ! 0) = 1 \<and>
   entry (allocatedInventory
            (events (fst (trackInventoryAllocationToEvent 1 1 1 1 stocked_System)) ! 0)) 1
     = - 2147483648"
  by (simp add: loadData_eval edge_System_def full_System_def stocked_System_def
      initial_System_def dinner_def UPCOMING_def track_eval addInventoryItem_def Let_def)


end
